theory Spec2Isabelle
  imports Complex_Main "HOL-Library.FSet"
begin

section \<open>OctoCropper: the region geometry and interaction engine\<close>

text \<open>
  A shallow embedding of \<^verbatim>\<open>src/App.tsx\<close> and \<^verbatim>\<open>src/types.ts\<close>.
  JavaScript numbers that carry coordinates are modelled as \<^typ>\<open>real\<close>, the doubles
  being the reals that rounding leaves as they are. The arithmetic of a drag (the
  deltas, the bounds test and the translation of a body drag, the resize of a
  rectangle) and the quotient \<^verbatim>\<open>HANDLE_SIZE / viewTransform.zoom\<close> round the result of
  every operation to the nearest double, as the source does: there the rounding decides
  whether a sample moves a region and what it stores. So do the sums and differences
  of the bounding box of the rasterizer. The hit tests, the geometry primitives and
  \<^verbatim>\<open>addRegion\<close> compute with the exact values: what is proved of them is the order of
  the scans and the shape of the lists.
  \<^verbatim>\<open>Infinity\<close> and \<^verbatim>\<open>NaN\<close> are not modelled. Region ids, array lengths and the natural
  pixel size of the image are \<^typ>\<open>nat\<close>; indices that use \<^verbatim>\<open>-1\<close> for "none" are
  \<^typ>\<open>int\<close>.
  React state is a record that every handler takes and returns; an updater passed to a
  state setter is applied once, to the state the handler was called in.
  \<^verbatim>\<open>Date.now()\<close> and the pointer position in image coordinates (the result of
  \<^verbatim>\<open>getCanvasPos\<close>) are parameters of the handlers. A \<^verbatim>\<open>TypeError\<close> raised by a
  property access on \<^verbatim>\<open>undefined\<close> or \<^verbatim>\<open>null\<close> is the \<open>Inl\<close> branch of a sum.
  Regions are values: the dragging reference keeps a copy of the region it captured, of
  which the handlers read the id only, so it does not matter that the source shares the
  object with the collection.
\<close>

subsection \<open>Data model (\<^verbatim>\<open>types.ts\<close>)\<close>

datatype point = Point (pt_x: real) (pt_y: real)

text \<open>\<open>Rect x y w h\<close> is \<^verbatim>\<open>{type: 'rect', x, y, w, h}\<close>; \<open>Poly ps\<close> is
  \<^verbatim>\<open>{type: 'poly', points: ps}\<close>. The field \<^verbatim>\<open>id\<close> of a region is \<open>region_id\<close>; the
  fields of \<^verbatim>\<open>ProcessedImage\<close> and \<^verbatim>\<open>HitResult\<close> carry the prefixes \<open>img_\<close> and
  \<open>hit_\<close>. In place of the data URL of a processed image the model keeps the box
  \<^verbatim>\<open>(minX, minY, w, h)\<close> its pixels are cut from.\<close>

datatype part = Rect real real real real | Poly "point list"

datatype region = Region (region_id: nat) (parts: "part list")

record processed_image =
  img_id :: nat
  img_name :: string
  img_box :: "real \<times> real \<times> real \<times> real"

text \<open>\<^verbatim>\<open>DragMode\<close>: \<open>Handle_n\<close> is \<^verbatim>\<open>'n'\<close>, and so on; \<^verbatim>\<open>null\<close> is \<open>None\<close> of an option.\<close>

datatype drag_mode =
  Body | Vertex | Handle_n | Handle_e | Handle_s | Handle_w | Handle_nw | Handle_ne | Handle_se | Handle_sw

record dragging_state =
  isDragging :: bool
  selectedRegion :: "region option"
  selectedPartIndex :: int
  selectedVertexIndex :: int
  dragMode :: "drag_mode option"
  mouseOffset :: point

record hit_result =
  hit_region :: "region option"
  hit_part :: "part option"
  hit_partIndex :: int
  hit_vertex :: "point option"
  hit_vertexIndex :: int
  hit_mode :: "drag_mode option"
  hit_cursor :: string

record view_transform =
  zoom :: real
  offset :: point

record image =
  naturalWidth :: nat
  naturalHeight :: nat

datatype error = TypeError

text \<open>The component state of \<^verbatim>\<open>App\<close>: the \<^verbatim>\<open>useState\<close> cells and the dragging
  \<^verbatim>\<open>useRef\<close>.\<close>

record editor =
  originalImage :: "image option"
  originalFileName :: "string option"
  regions :: "region list"
  processedImages :: "processed_image list"
  isSelectMode :: bool
  multiSelectRegions :: "nat fset"
  isWaitingForPointClick :: bool
  isDeletePointMode :: bool
  isDeleteRegionMode :: bool
  cursor :: string
  viewTransform :: view_transform
  draggingState :: dragging_state

subsection \<open>Double arithmetic\<close>

text \<open>Rounding to an integer, to the nearest and to the even one of two that are equally
  near.\<close>

definition rne :: "real \<Rightarrow> int" where
  "rne y =
     (let f = \<lfloor>y\<rfloor>; d = y - of_int f in
      if d < 1 / 2 then f else if 1 / 2 < d then f + 1 else if even f then f else f + 1)"

text \<open>The binary exponent of a positive number \<open>a\<close>: the \<open>e\<close> with
  \<open>2 powi e \<le> a < 2 powi (e + 1)\<close>, found by halving from 2 upwards and by doubling
  below 1.\<close>

function expo_up :: "real \<Rightarrow> int" where
  "expo_up a = (if 2 \<le> a then expo_up (a / 2) + 1 else 0)"
  by pat_completeness auto
termination
  by (relation "measure (\<lambda>a. nat \<lfloor>a\<rfloor>)") (auto, linarith)

function expo_down :: "real \<Rightarrow> int" where
  "expo_down a = (if 0 < a \<and> a < 1 then expo_down (a * 2) - 1 else 0)"
  by pat_completeness auto
termination
proof (relation "measure (\<lambda>a. nat \<lfloor>1 / a\<rfloor>)")
  show "wf (measure (\<lambda>a::real. nat \<lfloor>1 / a\<rfloor>))"
    by simp
next
  fix a :: real
  assume a: "0 < a \<and> a < 1"
  define y where "y = 1 / a"
  have y: "1 < y"
    using a by (simp add: y_def)
  hence y1: "1 \<le> \<lfloor>y\<rfloor>"
    by linarith
  hence "y / 2 < of_int \<lfloor>y\<rfloor>"
    by linarith
  hence "\<lfloor>y / 2\<rfloor> < \<lfloor>y\<rfloor>"
    by (simp add: floor_less_iff)
  hence "nat \<lfloor>y / 2\<rfloor> < nat \<lfloor>y\<rfloor>"
    using y1 by linarith
  moreover have "1 / (a * 2) = y / 2"
    by (simp add: y_def)
  ultimately have "nat \<lfloor>1 / (a * 2)\<rfloor> < nat \<lfloor>1 / a\<rfloor>"
    unfolding y_def by metis
  thus "(a * 2, a) \<in> measure (\<lambda>a. nat \<lfloor>1 / a\<rfloor>)"
    unfolding measure_def inv_image_def by blast
qed

declare expo_up.simps [simp del] expo_down.simps [simp del]

definition expo :: "real \<Rightarrow> int" where
  "expo a = (if 1 \<le> a then expo_up a else expo_down a)"

text \<open>The double nearest to a real (IEEE 754 binary64, round to nearest, ties to even):
  a significand of 53 bits, so that the doubles of exponent \<open>e\<close> are the multiples of
  \<open>2 powi (e - 52)\<close>, and no exponent below \<open>-1022\<close>. A result past the largest double is
  \<^verbatim>\<open>Infinity\<close> in the source and stays finite here; the coordinates of an image are far
  from it.\<close>

definition fl :: "real \<Rightarrow> real" where
  "fl x =
     (if x = 0 then 0
      else let e = max (expo \<bar>x\<bar>) (- 1022); u = 2 powi (e - 52)
           in of_int (rne (x / u)) * u)"

text \<open>The operators \<^verbatim>\<open>+\<close>, \<^verbatim>\<open>-\<close> and \<^verbatim>\<open>/\<close> of the source on doubles.\<close>

definition fadd :: "real \<Rightarrow> real \<Rightarrow> real" where
  "fadd a b = fl (a + b)"

definition fsub :: "real \<Rightarrow> real \<Rightarrow> real" where
  "fsub a b = fl (a - b)"

definition fdiv :: "real \<Rightarrow> real \<Rightarrow> real" where
  "fdiv a b = fl (a / b)"

subsection \<open>Constants and array operations\<close>

definition HANDLE_SIZE :: real where
  "HANDLE_SIZE = 12"

text \<open>\<^verbatim>\<open>HANDLE_SIZE / viewTransform.zoom\<close>. The model follows the source for a zoom
  other than 0 (JavaScript divides by 0 to \<^verbatim>\<open>Infinity\<close>, HOL to 0).\<close>

definition threshold :: "editor \<Rightarrow> real" where
  "threshold s = fdiv HANDLE_SIZE (zoom (viewTransform s))"

text \<open>Array reads: \<^verbatim>\<open>xs[i]\<close> is \<^verbatim>\<open>undefined\<close> out of range.\<close>

definition nth_js :: "'a list \<Rightarrow> int \<Rightarrow> 'a option" where
  "nth_js xs i = (if 0 \<le> i \<and> i < int (length xs) then Some (xs ! nat i) else None)"

text \<open>\<^verbatim>\<open>xs.findIndex(p)\<close>, with \<open>None\<close> for \<^verbatim>\<open>-1\<close>.\<close>

fun findIndex :: "('a \<Rightarrow> bool) \<Rightarrow> 'a list \<Rightarrow> nat option" where
  "findIndex p [] = None"
| "findIndex p (x # xs) =
     (if p x then Some 0 else (case findIndex p xs of None \<Rightarrow> None | Some i \<Rightarrow> Some (Suc i)))"

text \<open>\<^verbatim>\<open>xs.splice(i, 0, v)\<close>: a start past the end is the end.\<close>

definition splice_insert :: "nat \<Rightarrow> 'a \<Rightarrow> 'a list \<Rightarrow> 'a list" where
  "splice_insert i v xs = take i xs @ [v] @ drop i xs"

text \<open>\<^verbatim>\<open>xs.splice(i, 1)\<close> for \<open>i \<ge> 0\<close>.\<close>

definition splice_remove :: "nat \<Rightarrow> 'a list \<Rightarrow> 'a list" where
  "splice_remove i xs = take i xs @ drop (Suc i) xs"

subsection \<open>Geometry primitives\<close>

text \<open>The loop of \<^verbatim>\<open>pointInPolygon\<close>: \<open>i\<close> runs over the indices, \<open>j\<close> is the
  previous \<open>i\<close> and starts at the last index.\<close>

definition intersect :: "point \<Rightarrow> point \<Rightarrow> point \<Rightarrow> bool" where
  "intersect p vi vj =
     (((pt_y vi > pt_y p) \<noteq> (pt_y vj > pt_y p)) \<and>
      pt_x p < (pt_x vj - pt_x vi) * (pt_y p - pt_y vi) / (pt_y vj - pt_y vi) + pt_x vi)"

definition pointInPolygon :: "point \<Rightarrow> point list \<Rightarrow> bool" where
  "pointInPolygon p vs =
     snd (fold (\<lambda>i (j, inside). (i, if intersect p (vs ! i) (vs ! j) then \<not> inside else inside))
            [0..<length vs] (length vs - 1, False))"

definition hypot :: "real \<Rightarrow> real \<Rightarrow> real" where
  "hypot a b = sqrt (a\<^sup>2 + b\<^sup>2)"

text \<open>\<^verbatim>\<open>distToSegment\<close> returns \<^verbatim>\<open>{distance, point}\<close>.\<close>

definition distToSegment :: "point \<Rightarrow> point \<Rightarrow> point \<Rightarrow> real \<times> point" where
  "distToSegment p v w =
     (let l2 = (pt_x v - pt_x w)\<^sup>2 + (pt_y v - pt_y w)\<^sup>2 in
      if l2 = 0 then (hypot (pt_x p - pt_x v) (pt_y p - pt_y v), Point (pt_x v) (pt_y v))
      else
        let t0 = ((pt_x p - pt_x v) * (pt_x w - pt_x v) + (pt_y p - pt_y v) * (pt_y w - pt_y v)) / l2;
            t = max 0 (min 1 t0);
            projection = Point (pt_x v + t * (pt_x w - pt_x v)) (pt_y v + t * (pt_y w - pt_y v))
        in (hypot (pt_x p - pt_x projection) (pt_y p - pt_y projection), projection))"

subsection \<open>Creating regions and switching modes\<close>

text \<open>\<^verbatim>\<open>addRegion\<close>; \<open>now\<close> is \<^verbatim>\<open>Date.now()\<close>.\<close>

definition addRegion :: "nat \<Rightarrow> editor \<Rightarrow> editor" where
  "addRegion now s =
     (case originalImage s of
        None \<Rightarrow> s
      | Some img \<Rightarrow>
          let defaultSize = min (real (naturalWidth img)) (real (naturalHeight img)) * 0.25;
              newRegion = Region now
                [Rect (real (naturalWidth img) / 2 - defaultSize / 2)
                      (real (naturalHeight img) / 2 - defaultSize / 2)
                      defaultSize defaultSize]
          in s\<lparr>regions := regions s @ [newRegion]\<rparr>)"

definition cancelAddPointMode :: "editor \<Rightarrow> editor" where
  "cancelAddPointMode s = s\<lparr>isWaitingForPointClick := False, cursor := ''default''\<rparr>"

text \<open>The handlers read the mode flags of the render they were created in (the state
  \<open>s\<close>) and queue their updates in program order.\<close>

definition toggleSelectMode :: "editor \<Rightarrow> editor" where
  "toggleSelectMode s =
     (let s1 = s\<lparr>isSelectMode := \<not> isSelectMode s\<rparr>;
          s2 = (if isWaitingForPointClick s then cancelAddPointMode s1 else s1);
          s3 = (if isDeletePointMode s then s2\<lparr>isDeletePointMode := False\<rparr> else s2);
          s4 = (if isDeleteRegionMode s then s3\<lparr>isDeleteRegionMode := False\<rparr> else s3)
      in s4\<lparr>multiSelectRegions := {||}\<rparr>)"

definition startAddPointMode :: "editor \<Rightarrow> editor" where
  "startAddPointMode s =
     (if isWaitingForPointClick s then cancelAddPointMode s
      else
        let s1 = s\<lparr>isWaitingForPointClick := True\<rparr>;
            s2 = (if isSelectMode s then s1\<lparr>isSelectMode := False\<rparr> else s1);
            s3 = (if isDeletePointMode s then s2\<lparr>isDeletePointMode := False\<rparr> else s2);
            s4 = (if isDeleteRegionMode s then s3\<lparr>isDeleteRegionMode := False\<rparr> else s3)
        in s4\<lparr>multiSelectRegions := {||}, cursor := ''crosshair''\<rparr>)"

definition toggleDeletePointMode :: "editor \<Rightarrow> editor" where
  "toggleDeletePointMode s =
     (let turningOn = \<not> isDeletePointMode s;
          s1 = s\<lparr>isDeletePointMode := turningOn\<rparr>
      in if turningOn then
           let s2 = (if isSelectMode s then s1\<lparr>isSelectMode := False\<rparr> else s1);
               s3 = (if isWaitingForPointClick s then cancelAddPointMode s2 else s2);
               s4 = (if isDeleteRegionMode s then s3\<lparr>isDeleteRegionMode := False\<rparr> else s3)
           in s4\<lparr>cursor := ''crosshair''\<rparr>
         else s1\<lparr>cursor := ''default''\<rparr>)"

definition toggleDeleteRegionMode :: "editor \<Rightarrow> editor" where
  "toggleDeleteRegionMode s =
     (let turningOn = \<not> isDeleteRegionMode s;
          s1 = s\<lparr>isDeleteRegionMode := turningOn\<rparr>
      in if turningOn then
           let s2 = (if isSelectMode s then s1\<lparr>isSelectMode := False\<rparr> else s1);
               s3 = (if isWaitingForPointClick s then cancelAddPointMode s2 else s2);
               s4 = (if isDeletePointMode s then s3\<lparr>isDeletePointMode := False\<rparr> else s3)
           in s4\<lparr>cursor := ''pointer''\<rparr>
         else s1\<lparr>cursor := ''default''\<rparr>)"

subsection \<open>Inserting a vertex (\<^verbatim>\<open>findClosestEdgePoint\<close>, \<^verbatim>\<open>addPointToPolygon\<close>)\<close>

text \<open>The segments of a part, each \<^verbatim>\<open>{p1, p2, index}\<close>.\<close>

fun segments :: "part \<Rightarrow> (point \<times> point \<times> nat) list" where
  "segments (Poly ps) =
     map (\<lambda>i. (ps ! i, ps ! ((i + 1) mod length ps), i)) [0..<length ps]"
| "segments (Rect x y w h) =
     (let p1 = Point x y; p2 = Point (x + w) y; p3 = Point (x + w) (y + h); p4 = Point x (y + h)
      in [(p1, p2, 0), (p2, p3, 1), (p3, p4, 2), (p4, p1, 3)])"

text \<open>The running minimum of \<^verbatim>\<open>findClosestEdgePoint\<close>:
  \<^verbatim>\<open>(minDistance, closestRegion, closestPartIndex, closestSegmentIndex, closestPoint)\<close>,
  with \<open>None\<close> for the initial \<^verbatim>\<open>(Infinity, null, -1, -1, null)\<close>.\<close>

type_synonym closest = "(real \<times> region \<times> nat \<times> nat \<times> point) option"

definition closest_step :: "point \<Rightarrow> region \<Rightarrow> nat \<Rightarrow> point \<times> point \<times> nat \<Rightarrow> closest \<Rightarrow> closest" where
  "closest_step pos r partIdx seg acc =
     (case seg of (p1, p2, idx) \<Rightarrow>
        (case distToSegment pos p1 p2 of (distance, pt) \<Rightarrow>
           if (case acc of None \<Rightarrow> True | Some (minDistance, _) \<Rightarrow> distance < minDistance)
           then Some (distance, r, partIdx, idx, pt) else acc))"

definition closest_region :: "point \<Rightarrow> region \<Rightarrow> closest \<Rightarrow> closest" where
  "closest_region pos r acc =
     fold (\<lambda>(partIdx, part) a. fold (closest_step pos r partIdx) (segments part) a)
       (enumerate 0 (parts r)) acc"

definition findClosestEdgePoint ::
    "editor \<Rightarrow> point \<Rightarrow> region list \<Rightarrow> (region \<times> nat \<times> nat \<times> point) option" where
  "findClosestEdgePoint s pos allRegions =
     (case fold (closest_region pos) allRegions None of
        None \<Rightarrow> None
      | Some (minDistance, found) \<Rightarrow> if minDistance > threshold s then None else Some found)"

text \<open>What the updater of \<^verbatim>\<open>addPointToPolygon\<close> does to the part it found.\<close>

fun insertVertex :: "part \<Rightarrow> nat \<Rightarrow> point \<Rightarrow> part" where
  "insertVertex (Rect x y w h) segmentIndex newPoint =
     Poly (splice_insert (segmentIndex + 1) newPoint
             [Point x y, Point (x + w) y, Point (x + w) (y + h), Point x (y + h)])"
| "insertVertex (Poly ps) segmentIndex newPoint =
     Poly (splice_insert (segmentIndex + 1) newPoint ps)"

text \<open>The updater passed to \<^verbatim>\<open>setRegions\<close>: the first region with the id, its part at
  \<open>partIndex\<close> (reading \<^verbatim>\<open>.type\<close> of a missing part is a \<^verbatim>\<open>TypeError\<close>).\<close>

definition addPoint_updater ::
    "nat \<Rightarrow> nat \<Rightarrow> nat \<Rightarrow> point \<Rightarrow> region list \<Rightarrow> error + region list" where
  "addPoint_updater rid partIndex segmentIndex newPoint prevRegions =
     (case findIndex (\<lambda>r. region_id r = rid) prevRegions of
        None \<Rightarrow> Inr prevRegions
      | Some i \<Rightarrow>
          let regionToUpdate = prevRegions ! i in
          (case nth_js (parts regionToUpdate) (int partIndex) of
             None \<Rightarrow> Inl TypeError
           | Some partToUpdate \<Rightarrow>
               Inr (prevRegions[i := Region (region_id regionToUpdate)
                      ((parts regionToUpdate)[partIndex := insertVertex partToUpdate segmentIndex newPoint])])))"

definition addPointToPolygon :: "point \<Rightarrow> editor \<Rightarrow> error + editor" where
  "addPointToPolygon pos s =
     (case findClosestEdgePoint s pos (regions s) of
        None \<Rightarrow> Inr s
      | Some (r, partIndex, segmentIndex, newPoint) \<Rightarrow>
          (case addPoint_updater (region_id r) partIndex segmentIndex newPoint (regions s) of
             Inl e \<Rightarrow> Inl e
           | Inr rs \<Rightarrow> Inr (s\<lparr>regions := rs\<rparr>)))"

subsection \<open>Merging (\<^verbatim>\<open>mergeSelectedRegions\<close>)\<close>

definition mergeSelectedRegions :: "nat \<Rightarrow> editor \<Rightarrow> editor" where
  "mergeSelectedRegions now s =
     (if fcard (multiSelectRegions s) < 2 then s
      else
        let regionsToMerge = filter (\<lambda>r. region_id r |\<in>| multiSelectRegions s) (regions s);
            remainingRegions = filter (\<lambda>r. \<not> region_id r |\<in>| multiSelectRegions s) (regions s);
            newParts = concat (map parts regionsToMerge);
            mergedRegion = Region now newParts
        in s\<lparr>regions := remainingRegions @ [mergedRegion], multiSelectRegions := {||}\<rparr>)"

text \<open>\<^verbatim>\<open>clearAllRegions\<close>.\<close>

definition clearAllRegions :: "editor \<Rightarrow> editor" where
  "clearAllRegions s =
     (let s1 = s\<lparr>regions := [], processedImages := [], isSelectMode := False,
                 multiSelectRegions := {||}\<rparr>;
          s2 = (if isWaitingForPointClick s then cancelAddPointMode s1 else s1);
          s3 = (if isDeletePointMode s then s2\<lparr>isDeletePointMode := False\<rparr> else s2)
      in if isDeleteRegionMode s then s3\<lparr>isDeleteRegionMode := False\<rparr> else s3)"

subsection \<open>The hit classifier (\<^verbatim>\<open>getHitRegion\<close>)\<close>

definition mk_hit ::
    "region \<Rightarrow> part \<Rightarrow> nat \<Rightarrow> (point \<times> nat) option \<Rightarrow> drag_mode \<Rightarrow> string \<Rightarrow> hit_result" where
  "mk_hit r p j v m c =
     \<lparr>hit_region = Some r, hit_part = Some p, hit_partIndex = int j,
      hit_vertex = map_option fst v,
      hit_vertexIndex = (case v of None \<Rightarrow> - 1 | Some (_, k) \<Rightarrow> int k),
      hit_mode = Some m, hit_cursor = c\<rparr>"

definition no_hit :: hit_result where
  "no_hit =
     \<lparr>hit_region = None, hit_part = None, hit_partIndex = - 1, hit_vertex = None,
      hit_vertexIndex = - 1, hit_mode = None, hit_cursor = ''default''\<rparr>"

definition normal_mode :: "editor \<Rightarrow> bool" where
  "normal_mode s =
     (\<not> isSelectMode s \<and> \<not> isWaitingForPointClick s \<and> \<not> isDeletePointMode s \<and> \<not> isDeleteRegionMode s)"

definition body_cursor :: "editor \<Rightarrow> string" where
  "body_cursor s = (if isSelectMode s \<or> isDeleteRegionMode s then ''pointer'' else ''move'')"

text \<open>The eight handle tests of a rectangle, in the order of the source.\<close>

definition hit_handles :: "real \<Rightarrow> point \<Rightarrow> real \<Rightarrow> real \<Rightarrow> real \<Rightarrow> real \<Rightarrow> (drag_mode \<times> string) option" where
  "hit_handles h2 pos x y w h =
     (if \<bar>pt_x pos - x\<bar> < h2 \<and> \<bar>pt_y pos - y\<bar> < h2 then Some (Handle_nw, ''nwse-resize'')
      else if \<bar>pt_x pos - (x + w)\<bar> < h2 \<and> \<bar>pt_y pos - y\<bar> < h2 then Some (Handle_ne, ''nesw-resize'')
      else if \<bar>pt_x pos - (x + w)\<bar> < h2 \<and> \<bar>pt_y pos - (y + h)\<bar> < h2 then Some (Handle_se, ''nwse-resize'')
      else if \<bar>pt_x pos - x\<bar> < h2 \<and> \<bar>pt_y pos - (y + h)\<bar> < h2 then Some (Handle_sw, ''nesw-resize'')
      else if \<bar>pt_x pos - (x + w / 2)\<bar> < h2 \<and> \<bar>pt_y pos - y\<bar> < h2 then Some (Handle_n, ''ns-resize'')
      else if \<bar>pt_x pos - (x + w)\<bar> < h2 \<and> \<bar>pt_y pos - (y + h / 2)\<bar> < h2 then Some (Handle_e, ''ew-resize'')
      else if \<bar>pt_x pos - (x + w / 2)\<bar> < h2 \<and> \<bar>pt_y pos - (y + h)\<bar> < h2 then Some (Handle_s, ''ns-resize'')
      else if \<bar>pt_x pos - x\<bar> < h2 \<and> \<bar>pt_y pos - (y + h / 2)\<bar> < h2 then Some (Handle_w, ''ew-resize'')
      else None)"

text \<open>The loop over the vertices of a polygon, from index \<open>k\<close>.\<close>

fun hit_vertices :: "editor \<Rightarrow> real \<Rightarrow> point \<Rightarrow> point list \<Rightarrow> nat \<Rightarrow> (point \<times> nat \<times> string) option" where
  "hit_vertices s h2 pos [] k = None"
| "hit_vertices s h2 pos (p # ps) k =
     (if hypot (pt_x pos - pt_x p) (pt_y pos - pt_y p) < h2 \<and> isDeletePointMode s
      then Some (p, k, ''crosshair'')
      else if hypot (pt_x pos - pt_x p) (pt_y pos - pt_y p) < h2 \<and>
              \<not> isSelectMode s \<and> \<not> isWaitingForPointClick s
      then Some (p, k, ''grab'')
      else hit_vertices s h2 pos ps (Suc k))"

text \<open>The body of the loop over the parts: what part \<open>j\<close> of a region returns, if
  anything.\<close>

fun hit_part_at :: "editor \<Rightarrow> point \<Rightarrow> region \<Rightarrow> nat \<Rightarrow> part \<Rightarrow> hit_result option" where
  "hit_part_at s pos r j (Rect x y w h) =
     (case (if normal_mode s then hit_handles (threshold s / 2) pos x y w h else None) of
        Some (m, c) \<Rightarrow> Some (mk_hit r (Rect x y w h) j None m c)
      | None \<Rightarrow>
          if pt_x pos > x \<and> pt_x pos < x + w \<and> pt_y pos > y \<and> pt_y pos < y + h
          then Some (mk_hit r (Rect x y w h) j None Body (body_cursor s))
          else None)"
| "hit_part_at s pos r j (Poly ps) =
     (case hit_vertices s (threshold s / 2) pos ps 0 of
        Some (p, k, c) \<Rightarrow> Some (mk_hit r (Poly ps) j (Some (p, k)) Vertex c)
      | None \<Rightarrow>
          if pointInPolygon pos ps
          then Some (mk_hit r (Poly ps) j None Body (body_cursor s))
          else None)"

text \<open>The loop over the parts of one region, from index \<open>j\<close>.\<close>

fun hit_parts :: "editor \<Rightarrow> point \<Rightarrow> region \<Rightarrow> part list \<Rightarrow> nat \<Rightarrow> hit_result option" where
  "hit_parts s pos r [] j = None"
| "hit_parts s pos r (p # ps) j =
     (case hit_part_at s pos r j p of
        Some hit \<Rightarrow> Some hit
      | None \<Rightarrow> hit_parts s pos r ps (Suc j))"

definition hit_in_region :: "editor \<Rightarrow> point \<Rightarrow> region \<Rightarrow> hit_result option" where
  "hit_in_region s pos r = hit_parts s pos r (parts r) 0"

text \<open>The outer loop, \<^verbatim>\<open>for (let i = regions.length - 1; i >= 0; i--)\<close>, over the
  regions listed from the last to the first.\<close>

fun hit_regions :: "editor \<Rightarrow> point \<Rightarrow> region list \<Rightarrow> hit_result option" where
  "hit_regions s pos [] = None"
| "hit_regions s pos (r # rs) =
     (case hit_in_region s pos r of
        Some hit \<Rightarrow> Some hit
      | None \<Rightarrow> hit_regions s pos rs)"

definition getHitRegion :: "editor \<Rightarrow> point \<Rightarrow> hit_result" where
  "getHitRegion s pos =
     (case hit_regions s pos (rev (regions s)) of Some hit \<Rightarrow> hit | None \<Rightarrow> no_hit)"

subsection \<open>Pointer down (\<^verbatim>\<open>onMouseDown\<close>)\<close>

text \<open>\<^verbatim>\<open>xs.splice(i, 1)\<close> for any integer \<open>i\<close>: a negative start counts from the end.\<close>

definition splice_remove_js :: "int \<Rightarrow> 'a list \<Rightarrow> 'a list" where
  "splice_remove_js i xs =
     (let n = int (length xs);
          start = (if i < 0 then max (n + i) 0 else min i n)
      in splice_remove (nat start) xs)"

text \<open>What the updater of the delete-point click does to the part it found.\<close>

fun deleteVertex :: "part \<Rightarrow> int \<Rightarrow> part" where
  "deleteVertex (Poly ps) vertexIndex =
     (if length ps > 3 then Poly (splice_remove_js vertexIndex ps) else Poly ps)"
| "deleteVertex (Rect x y w h) vertexIndex = Rect x y w h"

definition deletePoint_updater :: "nat \<Rightarrow> int \<Rightarrow> int \<Rightarrow> region list \<Rightarrow> error + region list" where
  "deletePoint_updater rid partIndex vertexIndex prevRegions =
     (case findIndex (\<lambda>r. region_id r = rid) prevRegions of
        None \<Rightarrow> Inr prevRegions
      | Some i \<Rightarrow>
          let regionToUpdate = prevRegions ! i in
          (case nth_js (parts regionToUpdate) partIndex of
             None \<Rightarrow> Inl TypeError
           | Some partToUpdate \<Rightarrow>
               Inr (prevRegions[i := Region (region_id regionToUpdate)
                      ((parts regionToUpdate)[nat partIndex := deleteVertex partToUpdate vertexIndex])])))"

definition is_poly :: "part \<Rightarrow> bool" where
  "is_poly p = (case p of Poly _ \<Rightarrow> True | Rect _ _ _ _ \<Rightarrow> False)"

text \<open>The handler from the point where \<^verbatim>\<open>pos\<close> is known (main button, canvas
  present, coordinates resolved).\<close>

definition onMouseDown :: "point \<Rightarrow> editor \<Rightarrow> error + editor" where
  "onMouseDown pos s =
     (let hit = getHitRegion s pos in
      if isDeleteRegionMode s then
        (case hit_region hit of
           Some r \<Rightarrow>
             if hit_mode hit = Some Body
             then Inr (s\<lparr>regions := filter (\<lambda>q. region_id q \<noteq> region_id r) (regions s)\<rparr>)
             else Inr s
         | None \<Rightarrow> Inr s)
      else if isWaitingForPointClick s then addPointToPolygon pos s
      else if isDeletePointMode s then
        (case (hit_region hit, hit_part hit) of
           (Some r, Some p) \<Rightarrow>
             if is_poly p \<and> hit_vertexIndex hit \<noteq> - 1
             then (case deletePoint_updater (region_id r) (hit_partIndex hit) (hit_vertexIndex hit) (regions s) of
                     Inl e \<Rightarrow> Inl e
                   | Inr rs \<Rightarrow> Inr (s\<lparr>regions := rs\<rparr>))
             else Inr s
         | _ \<Rightarrow> Inr s)
      else if isSelectMode s then
        (case hit_region hit of
           Some r \<Rightarrow>
             if hit_mode hit = Some Body
             then Inr (s\<lparr>multiSelectRegions :=
                        (if region_id r |\<in>| multiSelectRegions s
                         then multiSelectRegions s |-| {|region_id r|}
                         else finsert (region_id r) (multiSelectRegions s))\<rparr>)
             else Inr s
         | None \<Rightarrow> Inr s)
      else
        (case hit_region hit of
           Some r \<Rightarrow>
             Inr (s\<lparr>draggingState :=
                       \<lparr>isDragging = True, selectedRegion = Some r,
                        selectedPartIndex = hit_partIndex hit,
                        selectedVertexIndex = hit_vertexIndex hit,
                        dragMode = hit_mode hit, mouseOffset = pos\<rparr>,
                     cursor := hit_cursor hit,
                     regions := filter (\<lambda>q. region_id q \<noteq> region_id r) (regions s) @ [r],
                     multiSelectRegions :=
                       (if fcard (multiSelectRegions s) > 0 then {||} else multiSelectRegions s)\<rparr>)
         | None \<Rightarrow> Inr s))"

subsection \<open>Pointer move (\<^verbatim>\<open>onMouseMove\<close>)\<close>

text \<open>\<^verbatim>\<open>Math.max(0, Math.min(x, originalImage?.naturalWidth ?? Infinity))\<close>.\<close>

definition clampX :: "image option \<Rightarrow> real \<Rightarrow> real" where
  "clampX img x = max 0 (case img of None \<Rightarrow> x | Some i \<Rightarrow> min x (real (naturalWidth i)))"

definition clampY :: "image option \<Rightarrow> real \<Rightarrow> real" where
  "clampY img y = max 0 (case img of None \<Rightarrow> y | Some i \<Rightarrow> min y (real (naturalHeight i)))"

text \<open>The bounds test of a body drag on the box \<open>(x0, y0)\<close> to \<open>(x1, y1)\<close>:
  \<^verbatim>\<open>x0 + deltaX < 0 || y0 + deltaY < 0 || x1 + deltaX > originalImage!.naturalWidth
     || y1 + deltaY > originalImage!.naturalHeight\<close>,
  which reads the image only when the first two tests fail. For a rectangle \<open>x1\<close> is the
  double \<^verbatim>\<open>part.x + part.w\<close>, to which \<^verbatim>\<open>deltaX\<close> is added next.\<close>

definition exits :: "image option \<Rightarrow> real \<Rightarrow> real \<Rightarrow> real \<Rightarrow> real \<Rightarrow> real \<Rightarrow> real \<Rightarrow> error + bool" where
  "exits img deltaX deltaY x0 y0 x1 y1 =
     (if fadd x0 deltaX < 0 \<or> fadd y0 deltaY < 0 then Inr True
      else (case img of
              None \<Rightarrow> Inl TypeError
            | Some i \<Rightarrow> Inr (fadd x1 deltaX > real (naturalWidth i) \<or>
                             fadd y1 deltaY > real (naturalHeight i))))"

text \<open>The inner loop over the points of a polygon and the outer loop over the parts;
  both stop at the first failure. The result is \<^verbatim>\<open>canMove\<close>.\<close>

fun points_canMove :: "image option \<Rightarrow> real \<Rightarrow> real \<Rightarrow> point list \<Rightarrow> error + bool" where
  "points_canMove img deltaX deltaY [] = Inr True"
| "points_canMove img deltaX deltaY (p # ps) =
     (case exits img deltaX deltaY (pt_x p) (pt_y p) (pt_x p) (pt_y p) of
        Inl e \<Rightarrow> Inl e
      | Inr out \<Rightarrow> if out then Inr False else points_canMove img deltaX deltaY ps)"

fun parts_canMove :: "image option \<Rightarrow> real \<Rightarrow> real \<Rightarrow> part list \<Rightarrow> error + bool" where
  "parts_canMove img deltaX deltaY [] = Inr True"
| "parts_canMove img deltaX deltaY (Rect x y w h # ps) =
     (case exits img deltaX deltaY x y (fadd x w) (fadd y h) of
        Inl e \<Rightarrow> Inl e
      | Inr out \<Rightarrow> if out then Inr False else parts_canMove img deltaX deltaY ps)"
| "parts_canMove img deltaX deltaY (Poly pts # ps) =
     (case points_canMove img deltaX deltaY pts of
        Inl e \<Rightarrow> Inl e
      | Inr ok \<Rightarrow> if ok then parts_canMove img deltaX deltaY ps else Inr False)"

text \<open>\<^verbatim>\<open>p.x += deltaX; p.y += deltaY\<close> on a rectangle, and on every point of a polygon.\<close>

fun translate_part :: "real \<Rightarrow> real \<Rightarrow> part \<Rightarrow> part" where
  "translate_part deltaX deltaY (Rect x y w h) = Rect (fadd x deltaX) (fadd y deltaY) w h"
| "translate_part deltaX deltaY (Poly pts) =
     Poly (map (\<lambda>pt. Point (fadd (pt_x pt) deltaX) (fadd (pt_y pt) deltaY)) pts)"

text \<open>The resize of a rectangle \<^verbatim>\<open>old\<close> = \<open>(ox, oy, ow, oh)\<close>: the \<^verbatim>\<open>switch\<close> on the
  drag mode, then the two minimum-size tests against \<open>m\<close> =
  \<^verbatim>\<open>HANDLE_SIZE / viewTransform.zoom\<close>.\<close>

definition resize_switch ::
    "drag_mode \<Rightarrow> image option \<Rightarrow> point \<Rightarrow> real \<Rightarrow> real \<Rightarrow> real \<Rightarrow> real \<Rightarrow> real \<times> real \<times> real \<times> real" where
  "resize_switch mode img pos ox oy ow oh =
     (let cx = clampX img (pt_x pos); cy = clampY img (pt_y pos) in
      case mode of
        Handle_n \<Rightarrow> (ox, cy, ow, fsub (fadd oy oh) cy)
      | Handle_e \<Rightarrow> (ox, oy, fsub cx ox, oh)
      | Handle_s \<Rightarrow> (ox, oy, ow, fsub cy oy)
      | Handle_w \<Rightarrow> (cx, oy, fsub (fadd ox ow) cx, oh)
      | Handle_nw \<Rightarrow> (cx, cy, fsub (fadd ox ow) cx, fsub (fadd oy oh) cy)
      | Handle_ne \<Rightarrow> (ox, cy, fsub cx ox, fsub (fadd oy oh) cy)
      | Handle_se \<Rightarrow> (ox, oy, fsub cx ox, fsub cy oy)
      | Handle_sw \<Rightarrow> (cx, oy, fsub (fadd ox ow) cx, fsub cy oy)
      | _ \<Rightarrow> (ox, oy, ow, oh))"

definition resize_rect ::
    "drag_mode \<Rightarrow> image option \<Rightarrow> real \<Rightarrow> point \<Rightarrow> real \<Rightarrow> real \<Rightarrow> real \<Rightarrow> real \<Rightarrow> part" where
  "resize_rect mode img m pos ox oy ow oh =
     (case resize_switch mode img pos ox oy ow oh of (x, y, w, h) \<Rightarrow>
        let x' = (if w < m \<and> (mode = Handle_w \<or> mode = Handle_nw \<or> mode = Handle_sw) then fsub (fadd ox ow) m else x);
            w' = (if w < m then m else w);
            y' = (if h < m \<and> (mode = Handle_n \<or> mode = Handle_nw \<or> mode = Handle_ne) then fsub (fadd oy oh) m else y);
            h' = (if h < m then m else h)
        in Rect x' y' w' h')"

text \<open>The updater passed to \<^verbatim>\<open>setRegions\<close> while a drag is captured. It also advances
  \<^verbatim>\<open>draggingStateRef.current.mouseOffset\<close> when a body move is applied.\<close>

definition drag_updater :: "drag_mode \<Rightarrow> point \<Rightarrow> editor \<Rightarrow> error + editor" where
  "drag_updater mode pos s =
     (let d = draggingState s; prevRegions = regions s in
      case selectedRegion d of
        None \<Rightarrow> Inr s
      | Some sel \<Rightarrow>
         (case findIndex (\<lambda>r. region_id r = region_id sel) prevRegions of
            None \<Rightarrow> Inr s
          | Some regionIndex \<Rightarrow>
             let regionToUpdate = prevRegions ! regionIndex;
                 put = (\<lambda>ps. s\<lparr>regions := prevRegions[regionIndex := Region (region_id regionToUpdate) ps]\<rparr>)
             in
             if mode = Body then
               (let deltaX = fsub (pt_x pos) (pt_x (mouseOffset d));
                    deltaY = fsub (pt_y pos) (pt_y (mouseOffset d))
                in case parts_canMove (originalImage s) deltaX deltaY (parts regionToUpdate) of
                     Inl e \<Rightarrow> Inl e
                   | Inr canMove \<Rightarrow>
                       if canMove
                       then Inr ((put (map (translate_part deltaX deltaY) (parts regionToUpdate)))
                                   \<lparr>draggingState := d\<lparr>mouseOffset := pos\<rparr>\<rparr>)
                       else Inr (put (parts regionToUpdate)))
             else
               (case nth_js (parts regionToUpdate) (selectedPartIndex d) of
                  None \<Rightarrow> Inl TypeError
                | Some (Poly pts) \<Rightarrow>
                    if mode = Vertex \<and> selectedVertexIndex d \<noteq> - 1 then
                      (case nth_js pts (selectedVertexIndex d) of
                         None \<Rightarrow> Inl TypeError
                       | Some _ \<Rightarrow>
                           Inr (put ((parts regionToUpdate)[nat (selectedPartIndex d) :=
                                  Poly (pts[nat (selectedVertexIndex d) :=
                                    Point (clampX (originalImage s) (pt_x pos))
                                          (clampY (originalImage s) (pt_y pos))])])))
                    else Inr (put (parts regionToUpdate))
                | Some (Rect ox oy ow oh) \<Rightarrow>
                    Inr (put ((parts regionToUpdate)[nat (selectedPartIndex d) :=
                           resize_rect mode (originalImage s) (threshold s) pos ox oy ow oh])))))"

definition onMouseMove :: "point \<Rightarrow> editor \<Rightarrow> error + editor" where
  "onMouseMove pos s =
     (case (isDragging (draggingState s), dragMode (draggingState s)) of
        (True, Some mode) \<Rightarrow> drag_updater mode pos s
      | _ \<Rightarrow>
          if isWaitingForPointClick s then Inr s
          else Inr (s\<lparr>cursor := hit_cursor (getHitRegion s pos)\<rparr>))"

definition onMouseUp :: "editor \<Rightarrow> editor" where
  "onMouseUp s =
     (if isDragging (draggingState s)
      then s\<lparr>draggingState := (draggingState s)\<lparr>isDragging := False\<rparr>\<rparr>
      else s)"

subsection \<open>The rasterizer (\<^verbatim>\<open>processRegions\<close>)\<close>

text \<open>The running box \<^verbatim>\<open>(minX, minY, maxX, maxY)\<close>; \<open>None\<close> is the initial
  \<^verbatim>\<open>(Infinity, Infinity, -Infinity, -Infinity)\<close>, which the first coordinate replaces
  (\<^verbatim>\<open>Math.min(Infinity, v)\<close> and \<^verbatim>\<open>Math.max(-Infinity, v)\<close> are \<open>v\<close>).\<close>

type_synonym bbox = "(real \<times> real \<times> real \<times> real) option"

fun bbox_add :: "real \<Rightarrow> real \<Rightarrow> real \<Rightarrow> real \<Rightarrow> bbox \<Rightarrow> bbox" where
  "bbox_add x0 y0 x1 y1 None = Some (x0, y0, x1, y1)"
| "bbox_add x0 y0 x1 y1 (Some (minX, minY, maxX, maxY)) =
     Some (min minX x0, min minY y0, max maxX x1, max maxY y1)"

fun part_bbox :: "part \<Rightarrow> bbox \<Rightarrow> bbox" where
  "part_bbox (Rect x y w h) b = bbox_add x y (fadd x w) (fadd y h) b"
| "part_bbox (Poly pts) b = fold (\<lambda>p. bbox_add (pt_x p) (pt_y p) (pt_x p) (pt_y p)) pts b"

definition region_bbox :: "region \<Rightarrow> bbox" where
  "region_bbox r = fold part_bbox (parts r) None"

text \<open>The decimal digits of a number, as a template literal prints it.\<close>

definition digit_char :: "nat \<Rightarrow> char" where
  "digit_char d = ''0123456789'' ! d"

fun string_of_nat :: "nat \<Rightarrow> string" where
  "string_of_nat n =
     (if n < 10 then [digit_char n]
      else string_of_nat (n div 10) @ [digit_char (n mod 10)])"

definition baseName :: "editor \<Rightarrow> string" where
  "baseName s = (case originalFileName s of None \<Rightarrow> ''image'' | Some n \<Rightarrow> if n = [] then ''image'' else n)"

definition artifact_name :: "string \<Rightarrow> nat \<Rightarrow> string" where
  "artifact_name base index = base @ ''_region_'' @ string_of_nat (index + 1) @ ''.png''"

text \<open>One turn of \<^verbatim>\<open>regions.forEach((region, index) => ...)\<close>: \<open>Inr None\<close> for the two
  early returns, \<open>Inr (Some a)\<close> for a pushed artifact, \<open>Inl TypeError\<close> when drawing
  reads \<^verbatim>\<open>part.points[0].x\<close> of a polygon with no points. \<open>ctx2d w h\<close> says whether
  \<^verbatim>\<open>getContext('2d')\<close> gives a context for a canvas sized \<open>w\<close> by \<open>h\<close>; \<open>now\<close> is
  \<^verbatim>\<open>Date.now()\<close> as read in that turn. The pixels of the data URL are the source image
  under the mask of the parts, cut to the box \<open>(minX, minY, w, h)\<close>; the model keeps the
  box.\<close>

definition process_region ::
    "(real \<Rightarrow> real \<Rightarrow> bool) \<Rightarrow> nat \<Rightarrow> string \<Rightarrow> nat \<Rightarrow> region \<Rightarrow> error + processed_image option" where
  "process_region ctx2d now base index r =
     (case region_bbox r of
        None \<Rightarrow> Inr None
      | Some (minX, minY, maxX, maxY) \<Rightarrow>
          let w = fsub maxX minX; h = fsub maxY minY in
          if w \<le> 0 \<or> h \<le> 0 then Inr None
          else if \<not> ctx2d w h then Inr None
          else if Poly [] \<in> set (parts r) then Inl TypeError
          else Inr (Some \<lparr>img_id = now + index, img_name = artifact_name base index,
                           img_box = (minX, minY, w, h)\<rparr>))"

text \<open>The \<^verbatim>\<open>forEach\<close> from index \<open>index\<close>, pushing to \<^verbatim>\<open>results\<close>.\<close>

fun process_loop ::
    "(real \<Rightarrow> real \<Rightarrow> bool) \<Rightarrow> (nat \<Rightarrow> nat) \<Rightarrow> string \<Rightarrow> nat \<Rightarrow> region list \<Rightarrow>
     processed_image list \<Rightarrow> error + processed_image list" where
  "process_loop ctx2d now base index [] results = Inr results"
| "process_loop ctx2d now base index (r # rs) results =
     (case process_region ctx2d (now index) base index r of
        Inl e \<Rightarrow> Inl e
      | Inr None \<Rightarrow> process_loop ctx2d now base (Suc index) rs results
      | Inr (Some a) \<Rightarrow> process_loop ctx2d now base (Suc index) rs (results @ [a]))"

definition processRegions :: "(real \<Rightarrow> real \<Rightarrow> bool) \<Rightarrow> (nat \<Rightarrow> nat) \<Rightarrow> editor \<Rightarrow> error + editor" where
  "processRegions ctx2d now s =
     (if originalImage s = None \<or> regions s = [] then Inr s
      else (case process_loop ctx2d now (baseName s) 0 (regions s) [] of
              Inl e \<Rightarrow> Inl e
            | Inr results \<Rightarrow> Inr (s\<lparr>processedImages := results\<rparr>)))"

text \<open>The flags of the render that disable the buttons: every action button needs an
  image, and the button that runs \<^verbatim>\<open>processRegions\<close> also needs a region.\<close>

definition isActionDisabled :: "editor \<Rightarrow> bool" where
  "isActionDisabled s = (originalImage s = None)"

definition isProcessDisabled :: "editor \<Rightarrow> bool" where
  "isProcessDisabled s = (regions s = [] \<or> isActionDisabled s)"

subsection \<open>The first render, and loading an image\<close>

text \<open>The initial values of the \<^verbatim>\<open>useState\<close> cells and of the dragging reference.\<close>

definition initial_editor :: editor where
  "initial_editor =
     \<lparr>originalImage = None, originalFileName = None, regions = [], processedImages = [],
      isSelectMode = False, multiSelectRegions = {||}, isWaitingForPointClick = False,
      isDeletePointMode = False, isDeleteRegionMode = False, cursor = ''default'',
      viewTransform = \<lparr>zoom = 1, offset = Point 0 0\<rparr>,
      draggingState = \<lparr>isDragging = False, selectedRegion = None, selectedPartIndex = - 1,
                       selectedVertexIndex = - 1, dragMode = None, mouseOffset = Point 0 0\<rparr>\<rparr>"

text \<open>The \<^verbatim>\<open>img.onload\<close> callback of \<^verbatim>\<open>handleImageUpload\<close>, with the file name already
  stripped of its extension.\<close>

definition imageLoaded :: "image \<Rightarrow> string \<Rightarrow> editor \<Rightarrow> editor" where
  "imageLoaded img fileNameWithoutExt s =
     s\<lparr>originalFileName := Some fileNameWithoutExt, originalImage := Some img, regions := [],
       processedImages := [], isSelectMode := False, multiSelectRegions := {||},
       isWaitingForPointClick := False\<rparr>"

subsection \<open>The states of a session\<close>

text \<open>The states the editor can be in: the first render, and what the handlers make of
  a state. A change of the view (wheel, zoom buttons, fit to screen) sets some view
  transform; deleting a processed image removes the images with its id.\<close>

inductive reachable :: "editor \<Rightarrow> bool" where
  first_render: "reachable initial_editor"
| image_loaded: "reachable s \<Longrightarrow> reachable (imageLoaded img name s)"
| add_region: "reachable s \<Longrightarrow> reachable (addRegion now s)"
| select_mode: "reachable s \<Longrightarrow> reachable (toggleSelectMode s)"
| add_point_mode: "reachable s \<Longrightarrow> reachable (startAddPointMode s)"
| delete_point_mode: "reachable s \<Longrightarrow> reachable (toggleDeletePointMode s)"
| delete_region_mode: "reachable s \<Longrightarrow> reachable (toggleDeleteRegionMode s)"
| merge: "reachable s \<Longrightarrow> reachable (mergeSelectedRegions now s)"
| clear_all: "reachable s \<Longrightarrow> reachable (clearAllRegions s)"
| mouse_down: "reachable s \<Longrightarrow> onMouseDown pos s = Inr s' \<Longrightarrow> reachable s'"
| mouse_move: "reachable s \<Longrightarrow> onMouseMove pos s = Inr s' \<Longrightarrow> reachable s'"
| mouse_up: "reachable s \<Longrightarrow> reachable (onMouseUp s)"
| process: "reachable s \<Longrightarrow> processRegions ctx2d clock s = Inr s' \<Longrightarrow> reachable s'"
| delete_image: "reachable s \<Longrightarrow>
     reachable (s\<lparr>processedImages := filter (\<lambda>a. img_id a \<noteq> idToDelete) (processedImages s)\<rparr>)"
| view_change: "reachable s \<Longrightarrow> reachable (s\<lparr>viewTransform := vt\<rparr>)"

subsection \<open>Notions used in the statements\<close>

text \<open>The modal editing modes that are active in a state.\<close>

definition active_modes :: "editor \<Rightarrow> nat" where
  "active_modes s =
     (if isSelectMode s then 1 else 0) + (if isWaitingForPointClick s then 1 else 0) +
     (if isDeletePointMode s then 1 else 0) + (if isDeleteRegionMode s then 1 else 0)"

text \<open>A part translated by \<open>(dx, dy)\<close> leaves \<open>[0, iw] \<times> [0, ih]\<close>: for a rectangle one of
  \<open>x + dx < 0\<close>, \<open>y + dy < 0\<close>, \<open>x + w + dx > iw\<close>, \<open>y + h + dy > ih\<close>; for a polygon a
  translated vertex outside. The sums are those of doubles, taken from left to right.\<close>

fun part_leaves :: "real \<Rightarrow> real \<Rightarrow> real \<Rightarrow> real \<Rightarrow> part \<Rightarrow> bool" where
  "part_leaves iw ih dx dy (Rect x y w h) =
     (fadd x dx < 0 \<or> fadd y dy < 0 \<or> fadd (fadd x w) dx > iw \<or> fadd (fadd y h) dy > ih)"
| "part_leaves iw ih dx dy (Poly pts) =
     list_ex (\<lambda>p. fadd (pt_x p) dx < 0 \<or> fadd (pt_y p) dy < 0 \<or>
                   fadd (pt_x p) dx > iw \<or> fadd (pt_y p) dy > ih) pts"

text \<open>The most that rounding to a double changes a number \<open>d\<close>: half a unit in the last
  place of \<open>d\<close>, that is \<open>\<bar>d\<bar> / 2 ^ 53\<close> at most, or \<open>2 powi (- 1075)\<close> below the least
  exponent.\<close>

definition rounding_bound :: "real \<Rightarrow> real" where
  "rounding_bound d = \<bar>d\<bar> / 2 ^ 53 + 2 powi (- 1075)"

text \<open>A point, a part and a region inside \<open>[0, iw] \<times> [0, ih]\<close>; for a rectangle, its four
  corners.\<close>

definition point_inside :: "real \<Rightarrow> real \<Rightarrow> point \<Rightarrow> bool" where
  "point_inside iw ih p = (0 \<le> pt_x p \<and> pt_x p \<le> iw \<and> 0 \<le> pt_y p \<and> pt_y p \<le> ih)"

fun part_inside :: "real \<Rightarrow> real \<Rightarrow> part \<Rightarrow> bool" where
  "part_inside iw ih (Rect x y w h) =
     (point_inside iw ih (Point x y) \<and> point_inside iw ih (Point (x + w) y) \<and>
      point_inside iw ih (Point (x + w) (y + h)) \<and> point_inside iw ih (Point x (y + h)))"
| "part_inside iw ih (Poly pts) = list_all (point_inside iw ih) pts"

definition region_inside :: "real \<Rightarrow> real \<Rightarrow> region \<Rightarrow> bool" where
  "region_inside iw ih r = list_all (part_inside iw ih) (parts r)"



text \<open>Every polygon of a collection has at least three points.\<close>

fun poly_min3 :: "part \<Rightarrow> bool" where
  "poly_min3 (Poly pts) = (3 \<le> length pts)"
| "poly_min3 (Rect x y w h) = True"

definition regions_min3 :: "region list \<Rightarrow> bool" where
  "regions_min3 rs = list_all (\<lambda>r. list_all poly_min3 (parts r)) rs"

text \<open>The eight resize handles among the drag modes.\<close>

definition is_handle :: "drag_mode \<Rightarrow> bool" where
  "is_handle mode = (mode \<noteq> Body \<and> mode \<noteq> Vertex)"

text \<open>The regions of the collection whose id is in the multi-select set, and the
  others, both in the order of the collection.\<close>

definition selected :: "editor \<Rightarrow> region list" where
  "selected s = filter (\<lambda>r. region_id r |\<in>| multiSelectRegions s) (regions s)"

definition unselected :: "editor \<Rightarrow> region list" where
  "unselected s = filter (\<lambda>r. \<not> region_id r |\<in>| multiSelectRegions s) (regions s)"

text \<open>The number of parts of a collection.\<close>

definition total_parts :: "region list \<Rightarrow> nat" where
  "total_parts rs = sum_list (map (\<lambda>r. length (parts r)) rs)"

text \<open>The coordinates the bounding box of a region ranges over: the corners of its
  rectangles and the vertices of its polygons. The far corner of a rectangle is at the
  doubles \<open>x + w\<close> and \<open>y + h\<close>.\<close>

fun part_coords :: "part \<Rightarrow> point list" where
  "part_coords (Rect x y w h) = [Point x y, Point (fadd x w) (fadd y h)]"
| "part_coords (Poly pts) = pts"

definition region_coords :: "region \<Rightarrow> point list" where
  "region_coords r = concat (map part_coords (parts r))"

text \<open>A part the editor produces: a rectangle of non-negative width and height at a
  position given in doubles, a polygon with a point.\<close>

fun drawable :: "part \<Rightarrow> bool" where
  "drawable (Rect x y w h) = (fl x = x \<and> fl y = y \<and> 0 \<le> w \<and> 0 \<le> h)"
| "drawable (Poly pts) = (pts \<noteq> [])"

text \<open>The box has non-positive width or height, each the difference of two doubles (a
  region without any coordinate has the box of width and height \<^verbatim>\<open>-Infinity\<close>).\<close>

definition degenerate :: "region \<Rightarrow> bool" where
  "degenerate r =
     (let cs = region_coords r in
      cs = [] \<or>
      fsub (Max (set (map pt_x cs))) (Min (set (map pt_x cs))) \<le> 0 \<or>
      fsub (Max (set (map pt_y cs))) (Min (set (map pt_y cs))) \<le> 0)"

text \<open>The artifacts of a run as the naming rule gives them: one for each region that is
  not degenerate, named by the 1-based index of its region, in the order of the regions.\<close>

definition artifact_names :: "string \<Rightarrow> region list \<Rightarrow> string list" where
  "artifact_names base rs =
     map (\<lambda>(i, r). base @ ''_region_'' @ string_of_nat (i + 1) @ ''.png'')
       (filter (\<lambda>(i, r). \<not> degenerate r) (enumerate 0 rs))"

text \<open>What \<^verbatim>\<open>findClosestEdgePoint\<close> holds while it scans: a region of the
  collection, a part index of that region and a segment index of that part.\<close>

definition closest_ok :: "region list \<Rightarrow> closest \<Rightarrow> bool" where
  "closest_ok rs acc =
     (case acc of
        None \<Rightarrow> True
      | Some (d, r, pj, i, pt) \<Rightarrow>
          r \<in> set rs \<and> pj < length (parts r) \<and> i < length (segments (parts r ! pj)))"

text \<open>The running box over a list of points.\<close>

definition pts_bbox :: "point list \<Rightarrow> bbox \<Rightarrow> bbox" where
  "pts_bbox cs b = fold (\<lambda>p. bbox_add (pt_x p) (pt_y p) (pt_x p) (pt_y p)) cs b"

subsection \<open>Example states\<close>

text \<open>An 800 by 600 image named \<^verbatim>\<open>photo\<close> with three regions drawn on it.\<close>

definition three_regions :: editor where
  "three_regions =
     (imageLoaded \<lparr>naturalWidth = 800, naturalHeight = 600\<rparr> ''photo'' initial_editor)
       \<lparr>regions := [Region 1 [Rect 100 100 200 200],
                    Region 2 [Rect 200 150 300 200, Poly [Point 10 10, Point 60 10, Point 10 60]],
                    Region 3 [Rect 150 120 400 300]]\<rparr>"

text \<open>The same collection in select mode, after the body of region 1 and the body of
  region 2 were clicked.\<close>

definition selecting_two :: editor where
  "selecting_two = three_regions\<lparr>isSelectMode := True, multiSelectRegions := {|1, 2|}\<rparr>"

text \<open>The three regions after a press on the triangle of region 2 at \<open>(20, 20)\<close>: the
  region is captured by a body drag and brought to the top.\<close>

definition dragging_region_2 :: editor where
  "dragging_region_2 =
     three_regions
       \<lparr>regions := [Region 1 [Rect 100 100 200 200],
                    Region 3 [Rect 150 120 400 300],
                    Region 2 [Rect 200 150 300 200, Poly [Point 10 10, Point 60 10, Point 10 60]]],
        cursor := ''move'',
        draggingState :=
          \<lparr>isDragging = True,
           selectedRegion = Some (Region 2 [Rect 200 150 300 200, Poly [Point 10 10, Point 60 10, Point 10 60]]),
           selectedPartIndex = 1, selectedVertexIndex = - 1, dragMode = Some Body,
           mouseOffset = Point 20 20\<rparr>\<rparr>"

text \<open>The three regions after a press on the north-west handle of region 1 at
  \<open>(100, 100)\<close>.\<close>

definition resizing_region_1 :: editor where
  "resizing_region_1 =
     three_regions
       \<lparr>regions := [Region 2 [Rect 200 150 300 200, Poly [Point 10 10, Point 60 10, Point 10 60]],
                    Region 3 [Rect 150 120 400 300],
                    Region 1 [Rect 100 100 200 200]],
        cursor := ''nwse-resize'',
        draggingState :=
          \<lparr>isDragging = True, selectedRegion = Some (Region 1 [Rect 100 100 200 200]),
           selectedPartIndex = 0, selectedVertexIndex = - 1, dragMode = Some Handle_nw,
           mouseOffset = Point 100 100\<rparr>\<rparr>"

text \<open>Delete-point mode on a collection whose region 2 has a triangle and region 4 a
  polygon of four points.\<close>

definition deleting_points :: editor where
  "deleting_points =
     (toggleDeletePointMode three_regions)
       \<lparr>regions := [Region 1 [Rect 100 100 200 200],
                    Region 2 [Rect 200 150 300 200, Poly [Point 10 10, Point 60 10, Point 10 60]],
                    Region 3 [Rect 150 120 400 300],
                    Region 4 [Poly [Point 600 500, Point 700 500, Point 700 580, Point 600 580]]]\<rparr>"

text \<open>An 800 by 600 image at zoom 0.1, the double \<open>3602879701896397 / 2 ^ 55\<close>, with two
  small rectangles, both inside the image: one in the top-left corner, one against the
  right edge.\<close>

definition zoomed_out :: editor where
  "zoomed_out =
     (imageLoaded \<lparr>naturalWidth = 800, naturalHeight = 600\<rparr> ''photo'' initial_editor)
       \<lparr>regions := [Region 1 [Rect 0 0 20 20], Region 2 [Rect 780 200 20 200]],
        viewTransform := \<lparr>zoom = 3602879701896397 / 36028797018963968, offset = Point 0 0\<rparr>\<rparr>"

text \<open>Three regions of which the second is a rectangle of width 0, with an artifact of
  an earlier run in the processed-image list.\<close>

definition with_flat_region :: editor where
  "with_flat_region =
     (imageLoaded \<lparr>naturalWidth = 800, naturalHeight = 600\<rparr> ''photo'' initial_editor)
       \<lparr>regions := [Region 1 [Rect 100 100 200 200],
                    Region 2 [Rect 5 5 0 10],
                    Region 3 [Poly [Point 10 10, Point 60 10, Point 10 60], Rect 20 20 100 30]],
        processedImages := [\<lparr>img_id = 5, img_name = ''photo_region_1.png'',
                               img_box = (325, 225, 150, 150)\<rparr>]\<rparr>"

text \<open>The three regions after a press on the vertex \<open>(10, 60)\<close> of the triangle of region
  2.\<close>

definition dragging_vertex :: editor where
  "dragging_vertex =
     three_regions
       \<lparr>regions := [Region 1 [Rect 100 100 200 200],
                    Region 3 [Rect 150 120 400 300],
                    Region 2 [Rect 200 150 300 200, Poly [Point 10 10, Point 60 10, Point 10 60]]],
        cursor := ''grab'',
        draggingState :=
          \<lparr>isDragging = True,
           selectedRegion = Some (Region 2 [Rect 200 150 300 200, Poly [Point 10 10, Point 60 10, Point 10 60]]),
           selectedPartIndex = 1, selectedVertexIndex = 2, dragMode = Some Vertex,
           mouseOffset = Point 10 60\<rparr>\<rparr>"

text \<open>An 800 by 600 image with the default region, in add-point mode.\<close>

definition adding_points :: editor where
  "adding_points =
     startAddPointMode
       (addRegion 1 (imageLoaded \<lparr>naturalWidth = 800, naturalHeight = 600\<rparr> ''photo'' initial_editor))"


text \<open>An 800 by 600 image at zoom 0.9, the double \<open>8106479329266893 / 2 ^ 53\<close>. The default
  region \<open>(325, 225, 150, 150)\<close> has had its east handle dragged to
  \<open>402.22222222222223\<close>, which left it the width \<open>77.22222222222223\<close>, the double
  \<open>1358507700096569 / 2 ^ 44\<close>. Its body is captured at \<open>(365.55555555555554, 300)\<close>; the
  abscissa is the double \<open>3215460671451591 / 2 ^ 43\<close>.\<close>

definition dragging_at_edge :: editor where
  "dragging_at_edge =
     (imageLoaded \<lparr>naturalWidth = 800, naturalHeight = 600\<rparr> ''photo'' initial_editor)
       \<lparr>regions := [Region 1 [Rect 325 225 (1358507700096569 / 17592186044416) 150]],
        cursor := ''move'',
        viewTransform := \<lparr>zoom = 8106479329266893 / 9007199254740992, offset = Point 0 0\<rparr>,
        draggingState :=
          \<lparr>isDragging = True,
           selectedRegion = Some (Region 1 [Rect 325 225 (1358507700096569 / 17592186044416) 150]),
           selectedPartIndex = 0, selectedVertexIndex = - 1, dragMode = Some Body,
           mouseOffset = Point (3215460671451591 / 8796093022208) 300\<rparr>\<rparr>"

text \<open>The same image and zoom. The default region has had its east handle dragged to
  \<open>338.88888888888886\<close>, which left it the width \<open>13.888888888888857\<close>, the double
  \<open>244335917283555 / 2 ^ 44\<close>. Its west handle is captured at \<open>(325, 300)\<close>.\<close>

definition resizing_at_zoom :: editor where
  "resizing_at_zoom =
     (imageLoaded \<lparr>naturalWidth = 800, naturalHeight = 600\<rparr> ''photo'' initial_editor)
       \<lparr>regions := [Region 1 [Rect 325 225 (244335917283555 / 17592186044416) 150]],
        cursor := ''ew-resize'',
        viewTransform := \<lparr>zoom = 8106479329266893 / 9007199254740992, offset = Point 0 0\<rparr>,
        draggingState :=
          \<lparr>isDragging = True,
           selectedRegion = Some (Region 1 [Rect 325 225 (244335917283555 / 17592186044416) 150]),
           selectedPartIndex = 0, selectedVertexIndex = - 1, dragMode = Some Handle_w,
           mouseOffset = Point 325 300\<rparr>\<rparr>"

text \<open>Running a handler on the result of another.\<close>

definition and_then :: "error + 'a \<Rightarrow> ('a \<Rightarrow> error + 'b) \<Rightarrow> error + 'b" where
  "and_then r f = (case r of Inl e \<Rightarrow> Inl e | Inr v \<Rightarrow> f v)"

section \<open>Properties\<close>

subsection \<open>Auxiliary facts\<close>

text \<open>The exponent found bounds its argument, and is the only one that does.\<close>

lemma expo_up_bounds:
  "1 \<le> a \<Longrightarrow> 2 powi (expo_up a) \<le> a \<and> a < 2 powi (expo_up a + 1)"
proof (induction a rule: expo_up.induct)
  case (1 a)
  show ?case
  proof (cases "2 \<le> a")
    case True
    hence "2 powi (expo_up (a / 2)) \<le> a / 2 \<and> a / 2 < 2 powi (expo_up (a / 2) + 1)"
      using 1 by simp
    moreover have "expo_up a = expo_up (a / 2) + 1"
      using True by (subst expo_up.simps) simp
    ultimately show ?thesis
      by (simp add: power_int_add)
  next
    case False
    hence "expo_up a = 0"
      by (subst expo_up.simps) simp
    thus ?thesis
      using False 1(2) by simp
  qed
qed

lemma expo_down_bounds:
  "0 < a \<Longrightarrow> a < 1 \<Longrightarrow> 2 powi (expo_down a) \<le> a \<and> a < 2 powi (expo_down a + 1)"
proof (induction a rule: expo_down.induct)
  case (1 a)
  have e: "expo_down a = expo_down (a * 2) - 1"
    using 1(2,3) by (subst expo_down.simps) simp
  show ?case
  proof (cases "a * 2 < 1")
    case True
    hence "2 powi (expo_down (a * 2)) \<le> a * 2 \<and> a * 2 < 2 powi (expo_down (a * 2) + 1)"
      using 1 by simp
    thus ?thesis
      by (simp add: e power_int_diff power_int_add)
  next
    case False
    hence "expo_down (a * 2) = 0"
      by (subst expo_down.simps) simp
    thus ?thesis
      using False 1(3) by (simp add: e)
  qed
qed

lemma expo_bounds:
  "0 < a \<Longrightarrow> 2 powi (expo a) \<le> a \<and> a < 2 powi (expo a + 1)"
  using expo_up_bounds[of a] expo_down_bounds[of a] by (simp add: expo_def)

lemma expo_unique:
  assumes "0 < a" "2 powi e \<le> a" "a < 2 powi (e + 1)"
  shows "expo a = e"
proof (rule ccontr)
  assume ne: "expo a \<noteq> e"
  note b = expo_bounds[OF assms(1)]
  show False
  proof (cases "expo a < e")
    case True
    hence "(2::real) powi (expo a + 1) \<le> 2 powi e"
      by (intro power_int_increasing) simp_all
    thus False
      using b assms(2) by linarith
  next
    case False
    hence "(2::real) powi (e + 1) \<le> 2 powi (expo a)"
      using ne by (intro power_int_increasing) simp_all
    thus False
      using b assms(3) by linarith
  qed
qed

lemma rne_of_int:
  "rne (of_int k) = k"
  by (simp add: rne_def)

text \<open>The rounding of a number whose exponent is known.\<close>

lemma fl_eval:
  assumes "2 powi e \<le> \<bar>x\<bar>" "\<bar>x\<bar> < 2 powi (e + 1)" "- 1022 \<le> e"
  shows "fl x = of_int (rne (x / 2 powi (e - 52))) * 2 powi (e - 52)"
proof -
  have "0 < \<bar>x\<bar>"
    using assms(1) zero_less_power_int[of "2::real" e] by linarith
  hence "expo \<bar>x\<bar> = e"
    using assms(1,2) by (intro expo_unique)
  thus ?thesis
    using assms(3) \<open>0 < \<bar>x\<bar>\<close> by (simp add: fl_def Let_def max_def)
qed


text \<open>What is already a double is left as it is: every integer up to \<open>2 ^ 53\<close> in
  absolute value.\<close>

lemma fl_of_int:
  assumes "\<bar>n\<bar> \<le> 2 ^ 53"
  shows "fl (of_int n) = of_int n"
proof (cases "n = 0")
  case True
  thus ?thesis
    by (simp add: fl_def)
next
  case False
  define a :: real where "a = \<bar>of_int n\<bar>"
  define e where "e = expo a"
  have a: "1 \<le> a" "a \<le> 2 ^ 53"
    using False assms by (simp_all add: a_def)
  have b: "2 powi e \<le> a" "a < 2 powi (e + 1)"
    using expo_bounds[of a] a by (simp_all add: e_def)
  have e0: "0 \<le> e"
  proof (rule ccontr)
    assume "\<not> 0 \<le> e"
    hence "(2::real) powi (e + 1) \<le> 2 powi 0"
      by (intro power_int_increasing) simp_all
    thus False
      using b(2) a(1) by simp
  qed
  have e53: "e \<le> 53"
  proof (rule ccontr)
    assume "\<not> e \<le> 53"
    hence "(2::real) powi 54 \<le> 2 powi e"
      by (intro power_int_increasing) simp_all
    thus False
      using b(1) a(2) by simp
  qed
  have "\<exists>k. real_of_int n / 2 powi (e - 52) = of_int k"
  proof (cases "e \<le> 52")
    case True
    have "real_of_int n / 2 powi (e - 52) = of_int n * 2 powi (52 - e)"
      by (simp add: power_int_diff)
    also have "\<dots> = of_int (n * 2 ^ nat (52 - e))"
      using True by (simp add: power_int_def)
    finally show ?thesis
      by blast
  next
    case False
    hence e: "e = 53"
      using e53 by simp
    hence "a = 2 ^ 53"
      using b(1) a(2) by simp
    hence "real_of_int n = 2 ^ 53 \<or> real_of_int n = - (2 ^ 53)"
      by (simp add: a_def abs_if split: if_splits)
    hence "real_of_int n / 2 powi (e - 52) = of_int (2 ^ 52) \<or> real_of_int n / 2 powi (e - 52) = of_int (- (2 ^ 52))"
      by (auto simp: e)
    thus ?thesis
      by blast
  qed
  then obtain k where k: "real_of_int n / 2 powi (e - 52) = of_int k"
    by blast
  have "fl (of_int n) = of_int (rne (real_of_int n / 2 powi (e - 52))) * 2 powi (e - 52)"
    using False e0 by (simp add: fl_def Let_def e_def a_def max_def)
  also have "\<dots> = real_of_int n / 2 powi (e - 52) * 2 powi (e - 52)"
    by (simp add: k rne_of_int)
  also have "\<dots> = of_int n"
    by simp
  finally show ?thesis .
qed


lemma fl_numeral:
  "numeral n \<le> (9007199254740992::real) \<Longrightarrow> fl (numeral n) = numeral n"
  "numeral n \<le> (9007199254740992::real) \<Longrightarrow> fl (- numeral n) = - numeral n"
  "fl 0 = 0" "fl 1 = 1"
  using fl_of_int[of "numeral n"] fl_of_int[of "- numeral n"] fl_of_int[of 0] fl_of_int[of 1]
  by simp_all

lemmas fl_ops = fadd_def fsub_def fdiv_def fl_numeral

text \<open>Rounding changes a number by \<open>rounding_bound\<close> at most, so a difference \<open>r - a\<close>
  taken in doubles gives \<open>r\<close> back, up to that much, when \<open>a\<close> is added again.\<close>

lemma rne_error: "\<bar>of_int (rne y) - y\<bar> \<le> 1 / 2"
  unfolding rne_def Let_def by (auto simp: abs_if) linarith+

lemma fl_error: "\<bar>fl x - x\<bar> \<le> rounding_bound x"
proof (cases "x = 0")
  case True
  thus ?thesis
    by (simp add: fl_def rounding_bound_def)
next
  case False
  define e where "e = max (expo \<bar>x\<bar>) (- 1022)"
  define u :: real where "u = 2 powi (e - 52)"
  have u0: "0 < u"
    by (simp add: u_def)
  have f: "fl x = of_int (rne (x / u)) * u"
    using False by (simp add: fl_def Let_def e_def u_def)
  have "fl x - x = (of_int (rne (x / u)) - x / u) * u"
    using u0 by (simp add: f algebra_simps)
  hence "\<bar>fl x - x\<bar> = \<bar>of_int (rne (x / u)) - x / u\<bar> * u"
    using u0 by (simp add: abs_mult)
  also have "\<dots> \<le> 1 / 2 * u"
    using rne_error[of "x / u"] u0 by (intro mult_right_mono) simp_all
  finally have h: "\<bar>fl x - x\<bar> \<le> u / 2"
    by simp
  have "u / 2 \<le> rounding_bound x"
  proof (cases "- 1022 \<le> expo \<bar>x\<bar>")
    case True
    hence "e = expo \<bar>x\<bar>"
      by (simp add: e_def)
    hence "2 powi e \<le> \<bar>x\<bar>"
      using expo_bounds[of "\<bar>x\<bar>"] False by simp
    moreover have "u = 2 powi e / 2 ^ 52"
      by (simp add: u_def power_int_diff)
    ultimately have "u / 2 \<le> \<bar>x\<bar> / 2 ^ 53"
      by simp
    thus ?thesis
      by (simp add: rounding_bound_def)
  next
    case False
    hence "e = - 1022"
      by (simp add: e_def)
    hence "u / 2 = 2 powi (- 1075)"
      by (simp add: u_def)
    thus ?thesis
      by (simp add: rounding_bound_def)
  qed
  with h show ?thesis
    by linarith
qed

lemma fsub_restores:
  "\<bar>a + fsub r a - r\<bar> \<le> rounding_bound (r - a)"
  "\<bar>fsub r a + a - r\<bar> \<le> rounding_bound (r - a)"
  using fl_error[of "r - a"] by (simp_all add: fsub_def algebra_simps abs_minus_commute)


text \<open>Rounding keeps the order, and the sign.\<close>

lemma rne_mono: "a \<le> b \<Longrightarrow> rne a \<le> rne b"
proof (rule ccontr)
  assume ab: "a \<le> b" and "\<not> rne a \<le> rne b"
  hence "rne b + 1 \<le> rne a"
    by simp
  hence "real_of_int (rne b) + 1 \<le> real_of_int (rne a)"
    by linarith
  with rne_error[of a] rne_error[of b] ab have "a = b"
    by linarith
  with \<open>\<not> rne a \<le> rne b\<close> show False
    by simp
qed

lemma rne_neg: "rne (- y) = - rne y"
proof -
  define k where "k = \<lfloor>y\<rfloor>"
  define d where "d = y - of_int k"
  have d: "0 \<le> d" "d < 1"
    unfolding d_def k_def by linarith+
  have y: "y = of_int k + d"
    by (simp add: d_def)
  show ?thesis
  proof (cases "d = 0")
    case True
    hence "y = of_int k"
      using y by simp
    thus ?thesis
      using rne_of_int[of k] rne_of_int[of "- k"] by simp
  next
    case False
    hence f: "\<lfloor>- y\<rfloor> = - k - 1"
      using d y by (intro floor_unique) simp_all
    have g: "\<lfloor>y\<rfloor> = k"
      by (simp add: k_def)
    have "- y - of_int (- k - 1) = 1 - d"
      by (simp add: y)
    thus ?thesis
      using d False unfolding rne_def Let_def f g
      by (auto simp: y)
  qed
qed

lemma fl_neg: "fl (- x) = - fl x"
  by (simp add: fl_def Let_def rne_neg)

lemma expo_mono:
  assumes "0 < a" "a \<le> b"
  shows "expo a \<le> expo b"
proof (rule ccontr)
  assume "\<not> expo a \<le> expo b"
  hence "(2::real) powi (expo b + 1) \<le> 2 powi (expo a)"
    by (intro power_int_increasing) simp_all
  thus False
    using expo_bounds[of a] expo_bounds[of b] assms by linarith
qed

lemma fl_pos_bounds:
  assumes "0 < x"
  defines "e \<equiv> max (expo \<bar>x\<bar>) (- 1022)"
  shows "0 \<le> fl x" and "fl x \<le> 2 powi (e + 1)" and "- 1022 \<le> expo x \<Longrightarrow> 2 powi e \<le> fl x"
proof -
  define u :: real where "u = 2 powi (e - 52)"
  have u0: "0 < u"
    by (simp add: u_def)
  have f: "fl x = of_int (rne (x / u)) * u"
    using assms(1) by (simp add: fl_def Let_def e_def u_def)
  have ax: "\<bar>x\<bar> = x"
    using assms(1) by simp
  have "rne 0 \<le> rne (x / u)"
    using assms(1) u0 by (intro rne_mono) simp
  hence "0 \<le> rne (x / u)"
    using rne_of_int[of 0] by simp
  thus "0 \<le> fl x"
    using u0 by (simp add: f)
  have "x < 2 powi (expo x + 1)"
    using expo_bounds[OF assms(1)] by simp
  also have "\<dots> \<le> 2 powi (e + 1)"
    by (intro power_int_increasing) (simp_all add: e_def ax)
  finally have "x / u \<le> 2 powi (e + 1) / u"
    using u0 by (simp add: divide_right_mono)
  also have "2 powi (e + 1) / u = of_int (2 ^ 53)"
    by (simp add: u_def power_int_diff power_int_add)
  finally have "rne (x / u) \<le> rne (of_int (2 ^ 53))"
    by (rule rne_mono)
  hence "rne (x / u) \<le> 2 ^ 53"
    using rne_of_int[of "2 ^ 53"] by simp
  hence "real_of_int (rne (x / u)) \<le> real_of_int (2 ^ 53)"
    by (rule of_int_le_iff[THEN iffD2])
  hence "real_of_int (rne (x / u)) \<le> 2 ^ 53"
    by simp
  hence "fl x \<le> 2 ^ 53 * u"
    using u0 by (simp add: f)
  also have "2 ^ 53 * u = 2 powi (e + 1)"
    by (simp add: u_def power_int_diff power_int_add)
  finally show "fl x \<le> 2 powi (e + 1)" .
  assume "- 1022 \<le> expo x"
  hence "e = expo x"
    by (simp add: e_def ax)
  hence "2 powi e \<le> x"
    using expo_bounds[OF assms(1)] by simp
  hence "2 powi e / u \<le> x / u"
    using u0 by (simp add: divide_right_mono)
  moreover have "2 powi e / u = of_int (2 ^ 52)"
    by (simp add: u_def power_int_diff)
  ultimately have "rne (of_int (2 ^ 52)) \<le> rne (x / u)"
    by (intro rne_mono) simp
  hence "2 ^ 52 \<le> rne (x / u)"
    using rne_of_int[of "2 ^ 52"] by simp
  hence "real_of_int (2 ^ 52) \<le> real_of_int (rne (x / u))"
    by (rule of_int_le_iff[THEN iffD2])
  hence "2 ^ 52 \<le> real_of_int (rne (x / u))"
    by simp
  hence "2 ^ 52 * u \<le> fl x"
    using u0 by (simp add: f)
  moreover have "2 ^ 52 * u = 2 powi e"
    by (simp add: u_def power_int_diff)
  ultimately show "2 powi e \<le> fl x"
    by simp
qed

lemma fl_mono_pos:
  assumes "0 < a" "a \<le> b"
  shows "fl a \<le> fl b"
proof -
  define ea where "ea = max (expo \<bar>a\<bar>) (- 1022)"
  define eb where "eb = max (expo \<bar>b\<bar>) (- 1022)"
  have b0: "0 < b"
    using assms by simp
  have ab: "\<bar>a\<bar> = a" "\<bar>b\<bar> = b"
    using assms by simp_all
  have le: "ea \<le> eb"
    using expo_mono[OF assms] by (simp add: ea_def eb_def ab)
  show ?thesis
  proof (cases "ea = eb")
    case True
    define u :: real where "u = 2 powi (ea - 52)"
    have u0: "0 < u"
      by (simp add: u_def)
    have "fl a = of_int (rne (a / u)) * u" "fl b = of_int (rne (b / u)) * u"
      using assms(1) b0 True by (simp_all add: fl_def Let_def ea_def eb_def u_def)
    moreover have "rne (a / u) \<le> rne (b / u)"
      using assms(2) u0 by (intro rne_mono) (simp add: divide_right_mono)
    ultimately show ?thesis
      using u0 by simp
  next
    case False
    hence lt: "ea + 1 \<le> eb"
      using le by simp
    hence "- 1022 \<le> expo b"
      by (simp add: ea_def eb_def ab max_def split: if_splits)
    hence "2 powi eb \<le> fl b"
      using fl_pos_bounds(3)[OF b0] by (simp add: eb_def)
    moreover have "fl a \<le> 2 powi (ea + 1)"
      using fl_pos_bounds(2)[OF assms(1)] by (simp add: ea_def)
    moreover have "(2::real) powi (ea + 1) \<le> 2 powi eb"
      using lt by (intro power_int_increasing) simp_all
    ultimately show ?thesis
      by linarith
  qed
qed

lemma fl_mono: "a \<le> b \<Longrightarrow> fl a \<le> fl b"
proof -
  assume ab: "a \<le> b"
  have z: "fl 0 = 0"
    by (simp add: fl_def)
  consider "0 < a" | "a = 0" "b = 0" | "a = 0" "0 < b" | "a < 0" "b < 0" | "a < 0" "b = 0" | "a < 0" "0 < b"
    using ab by linarith
  thus ?thesis
  proof cases
    case 1
    thus ?thesis
      using ab by (rule fl_mono_pos)
  next
    case 2
    thus ?thesis
      by simp
  next
    case 3
    thus ?thesis
      using fl_pos_bounds(1)[of b] z by simp
  next
    case 4
    hence "fl (- b) \<le> fl (- a)"
      using ab by (intro fl_mono_pos) simp_all
    thus ?thesis
      by (simp add: fl_neg)
  next
    case 5
    hence "0 \<le> fl (- a)"
      by (intro fl_pos_bounds(1)) simp
    thus ?thesis
      using 5 z by (simp add: fl_neg)
  next
    case 6
    hence "0 \<le> fl (- a)" "0 \<le> fl b"
      by (simp_all add: fl_pos_bounds(1))
    thus ?thesis
      by (simp add: fl_neg)
  qed
qed

lemma hypot_less_iff: "hypot a b < r \<longleftrightarrow> 0 < r \<and> a\<^sup>2 + b\<^sup>2 < r\<^sup>2"
proof -
  have nn: "0 \<le> a\<^sup>2 + b\<^sup>2" by simp
  show ?thesis
  proof (cases "0 < r")
    case True
    then have "sqrt (a\<^sup>2 + b\<^sup>2) < r \<longleftrightarrow> sqrt (a\<^sup>2 + b\<^sup>2) < sqrt (r\<^sup>2)" by simp
    also have "\<dots> \<longleftrightarrow> a\<^sup>2 + b\<^sup>2 < r\<^sup>2" by (rule real_sqrt_less_iff)
    finally show ?thesis using True by (simp add: hypot_def)
  next
    case False
    have "0 \<le> sqrt (a\<^sup>2 + b\<^sup>2)" by simp
    with False show ?thesis unfolding hypot_def by linarith
  qed
qed

lemma hypot_less_hypot: "hypot a b < hypot c d \<longleftrightarrow> a\<^sup>2 + b\<^sup>2 < c\<^sup>2 + d\<^sup>2"
  by (simp add: hypot_def)

lemma less_hypot_iff: "r < hypot a b \<longleftrightarrow> r < 0 \<or> r\<^sup>2 < a\<^sup>2 + b\<^sup>2"
proof -
  have "r < hypot a b \<longleftrightarrow> \<not> hypot a b \<le> r" by auto
  also have "hypot a b \<le> r \<longleftrightarrow> 0 \<le> r \<and> a\<^sup>2 + b\<^sup>2 \<le> r\<^sup>2"
  proof (cases "0 \<le> r")
    case True
    then have "sqrt (a\<^sup>2 + b\<^sup>2) \<le> r \<longleftrightarrow> sqrt (a\<^sup>2 + b\<^sup>2) \<le> sqrt (r\<^sup>2)" by simp
    also have "\<dots> \<longleftrightarrow> a\<^sup>2 + b\<^sup>2 \<le> r\<^sup>2" by (rule real_sqrt_le_iff)
    finally show ?thesis using True by (simp add: hypot_def)
  next
    case False
    have "0 \<le> sqrt (a\<^sup>2 + b\<^sup>2)" by simp
    with False show ?thesis unfolding hypot_def by linarith
  qed
  finally show ?thesis by (auto simp: not_le)
qed

lemma findIndex_Some:
  "findIndex p xs = Some i \<Longrightarrow> i < length xs \<and> p (xs ! i) \<and> (\<forall>j < i. \<not> p (xs ! j))"
proof (induction xs arbitrary: i)
  case Nil
  then show ?case by simp
next
  case (Cons x xs)
  show ?case
  proof (cases "p x")
    case True
    with Cons.prems show ?thesis by simp
  next
    case False
    with Cons.prems obtain i' where i': "findIndex p xs = Some i'" "i = Suc i'"
      by (auto split: option.splits)
    from Cons.IH[OF i'(1)] False i'(2) show ?thesis
      by (auto simp: less_Suc_eq_0_disj)
  qed
qed

lemma findIndex_distinct:
  "distinct (map f xs) \<Longrightarrow> i < length xs \<Longrightarrow> findIndex (\<lambda>x. f x = f (xs ! i)) xs = Some i"
proof (induction xs arbitrary: i)
  case Nil
  then show ?case by simp
next
  case (Cons x xs)
  then show ?case by (cases i) (auto simp: image_iff)
qed

lemma nth_js_nat: "j < length xs \<Longrightarrow> nth_js xs (int j) = Some (xs ! j)"
  by (simp add: nth_js_def)

lemma nth_js_Some: "nth_js xs i = Some v \<Longrightarrow> 0 \<le> i \<and> nat i < length xs \<and> xs ! nat i = v"
  by (auto simp: nth_js_def split: if_splits)

subsection \<open>Merging\<close>

lemma sel_le_fcard:
  assumes "distinct (map region_id rs)"
  shows "length (filter (\<lambda>r. region_id r |\<in>| ms) rs) \<le> fcard ms"
proof -
  let ?sel = "filter (\<lambda>r. region_id r |\<in>| ms) rs"
  have d: "distinct (map region_id ?sel)" using assms by (simp add: distinct_map_filter)
  have "length ?sel = card (region_id ` set ?sel)"
    using distinct_card[OF d] by simp
  also have "\<dots> \<le> card (fset ms)"
    by (rule card_mono) auto
  finally show ?thesis by (simp add: fcard.rep_eq)
qed

lemma total_parts_append: "total_parts (xs @ ys) = total_parts xs + total_parts ys"
  by (simp add: total_parts_def)

lemma total_parts_partition:
  "total_parts (filter P rs) + total_parts (filter (\<lambda>r. \<not> P r) rs) = total_parts rs"
  by (induction rs) (auto simp: total_parts_def)

lemma length_concat_parts: "length (concat (map parts rs)) = total_parts rs"
  by (induction rs) (auto simp: total_parts_def)

lemma merge_regions:
  assumes "2 \<le> fcard (multiSelectRegions s)"
  shows "mergeSelectedRegions now s =
     s\<lparr>regions := unselected s @ [Region now (concat (map parts (selected s)))],
       multiSelectRegions := {||}\<rparr>"
  using assms by (simp add: mergeSelectedRegions_def Let_def selected_def unselected_def)

lemma three_regions_simps:
  "regions three_regions =
     [Region 1 [Rect 100 100 200 200],
      Region 2 [Rect 200 150 300 200, Poly [Point 10 10, Point 60 10, Point 10 60]],
      Region 3 [Rect 150 120 400 300]]"
  "multiSelectRegions three_regions = {||}"
  "originalImage three_regions = Some \<lparr>naturalWidth = 800, naturalHeight = 600\<rparr>"
  "originalFileName three_regions = Some ''photo''"
  "processedImages three_regions = []"
  "isSelectMode three_regions = False"
  "isWaitingForPointClick three_regions = False"
  "isDeletePointMode three_regions = False"
  "isDeleteRegionMode three_regions = False"
  "viewTransform three_regions = \<lparr>zoom = 1, offset = Point 0 0\<rparr>"
  by (simp_all add: three_regions_def imageLoaded_def initial_editor_def)

lemma selecting_two_simps:
  "regions selecting_two =
     [Region 1 [Rect 100 100 200 200],
      Region 2 [Rect 200 150 300 200, Poly [Point 10 10, Point 60 10, Point 10 60]],
      Region 3 [Rect 150 120 400 300]]"
  "multiSelectRegions selecting_two = {|1, 2|}"
  by (simp_all add: selecting_two_def three_regions_simps)

text \<open>
  \<^bold>\<open>C5, as stated,\<close> fails when the clock value is the id of a region of the collection:
  the id of the new region is \<^verbatim>\<open>Date.now()\<close>, whatever the collection holds. In
  \<open>selecting_two\<close> the ids 1, 2 and 3 are distinct, and 1 and 2 are selected. A merge
  at clock value 3 leaves two regions with the id 3, so the id of the new region is not
  fresh; a merge at clock value 1 gives the new region the id 1, so the id of a merged
  region does not disappear.
\<close>

theorem mergeSelectedRegions_id_counterexample:
  "distinct (map region_id (regions selecting_two)) \<and>
   map region_id (selected selecting_two) = [1, 2] \<and>
   map region_id (regions (mergeSelectedRegions 3 selecting_two)) = [3, 3] \<and>
   map region_id (regions (mergeSelectedRegions 1 selecting_two)) = [3, 1]"
  by (simp add: selecting_two_simps selected_def mergeSelectedRegions_def Let_def fcard_finsert_if)

text \<open>
  \<^bold>\<open>C5, as amended.\<close> \<^verbatim>\<open>mergeSelectedRegions\<close> at the clock value \<open>now\<close>, for a collection
  whose region ids are distinct. With fewer than two ids selected the state is returned
  as it is. With \<open>k \<ge> 2\<close> regions selected, the new collection is the unselected regions
  followed by one region with id \<open>now\<close> whose parts are the parts of the selected
  regions, concatenated in the order of the collection; the number of parts of the
  collection is the same, the number of regions is smaller by \<open>k - 1\<close>, the ids of the
  new collection are the old ids without the selected ones, and \<open>now\<close>; and the
  multi-select set is empty. The id of a merged region is not an id of the new
  collection unless it is \<open>now\<close>. When \<open>now\<close> is not an id of the old collection, it is
  the id of no other region of the new one: the ids stay distinct and no id of a merged
  region is left.
\<close>

theorem mergeSelectedRegions_spec:
  assumes "distinct (map region_id (regions s))"
  shows "(fcard (multiSelectRegions s) < 2 \<longrightarrow> mergeSelectedRegions now s = s) \<and>
         (2 \<le> length (selected s) \<longrightarrow>
            regions (mergeSelectedRegions now s) =
              unselected s @ [Region now (concat (map parts (selected s)))] \<and>
            total_parts (regions (mergeSelectedRegions now s)) = total_parts (regions s) \<and>
            length (regions (mergeSelectedRegions now s)) =
              length (regions s) - (length (selected s) - 1) \<and>
            region_id ` set (regions (mergeSelectedRegions now s)) =
              (region_id ` set (regions s) - region_id ` set (selected s)) \<union> {now} \<and>
            multiSelectRegions (mergeSelectedRegions now s) = {||} \<and>
            (\<forall>r \<in> set (selected s). region_id r \<noteq> now \<longrightarrow>
               region_id r \<notin> region_id ` set (regions (mergeSelectedRegions now s))) \<and>
            (now \<notin> region_id ` set (regions s) \<longrightarrow>
               distinct (map region_id (regions (mergeSelectedRegions now s))) \<and>
               (\<forall>r \<in> set (selected s).
                  region_id r \<notin> region_id ` set (regions (mergeSelectedRegions now s)))))"
proof (intro conjI impI)
  assume "fcard (multiSelectRegions s) < 2"
  then show "mergeSelectedRegions now s = s" by (simp add: mergeSelectedRegions_def)
next
  assume k: "2 \<le> length (selected s)"
  have "length (selected s) \<le> fcard (multiSelectRegions s)"
    unfolding selected_def by (rule sel_le_fcard[OF assms(1)])
  with k have c: "2 \<le> fcard (multiSelectRegions s)" by simp
  note m = merge_regions[OF c, of now]
  show "regions (mergeSelectedRegions now s) =
      unselected s @ [Region now (concat (map parts (selected s)))]"
    by (simp add: m)
  have tp: "total_parts (selected s) + total_parts (unselected s) = total_parts (regions s)"
    unfolding selected_def unselected_def by (rule total_parts_partition)
  show "total_parts (regions (mergeSelectedRegions now s)) = total_parts (regions s)"
    using tp by (simp add: m total_parts_append) (simp add: total_parts_def length_concat_parts)
  have len: "length (selected s) + length (unselected s) = length (regions s)"
    unfolding selected_def unselected_def by (rule sum_length_filter_compl)
  show "length (regions (mergeSelectedRegions now s)) =
      length (regions s) - (length (selected s) - 1)"
    using len k by (simp add: m)
  have u: "region_id ` set (unselected s) = region_id ` set (regions s) - region_id ` set (selected s)"
    using assms(1) unfolding selected_def unselected_def
    by (auto simp: distinct_map inj_on_def)
  then show ids: "region_id ` set (regions (mergeSelectedRegions now s)) =
      (region_id ` set (regions s) - region_id ` set (selected s)) \<union> {now}"
    by (simp add: m)
  show "multiSelectRegions (mergeSelectedRegions now s) = {||}"
    by (simp add: m)
  show "\<forall>r \<in> set (selected s). region_id r \<noteq> now \<longrightarrow>
      region_id r \<notin> region_id ` set (regions (mergeSelectedRegions now s))"
    unfolding ids by blast
  have sub: "set (selected s) \<subseteq> set (regions s)"
    by (auto simp: selected_def)
  {
    assume fresh: "now \<notin> region_id ` set (regions s)"
    have du: "distinct (map region_id (unselected s))"
      using assms(1) unfolding unselected_def by (rule distinct_map_filter)
    have "now \<notin> region_id ` set (unselected s)"
      using fresh u by blast
    with du show "distinct (map region_id (regions (mergeSelectedRegions now s)))"
      by (simp add: m)
    show "\<forall>r \<in> set (selected s).
        region_id r \<notin> region_id ` set (regions (mergeSelectedRegions now s))"
      unfolding ids using fresh sub by blast
  }
qed

theorem mergeSelectedRegions_spec_witness:
  "distinct (map region_id (regions three_regions)) \<and>
   7 \<notin> region_id ` set (regions three_regions) \<and>
   fcard (multiSelectRegions (three_regions\<lparr>multiSelectRegions := {|2|}\<rparr>)) < 2 \<and>
   mergeSelectedRegions 7 (three_regions\<lparr>multiSelectRegions := {|2|}\<rparr>) =
     three_regions\<lparr>multiSelectRegions := {|2|}\<rparr> \<and>
   2 \<le> length (selected (three_regions\<lparr>multiSelectRegions := {|1, 2|}\<rparr>)) \<and>
   regions (mergeSelectedRegions 7 (three_regions\<lparr>multiSelectRegions := {|1, 2|}\<rparr>)) =
     [Region 3 [Rect 150 120 400 300],
      Region 7 [Rect 100 100 200 200, Rect 200 150 300 200,
                Poly [Point 10 10, Point 60 10, Point 10 60]]] \<and>
   total_parts (regions (mergeSelectedRegions 7 (three_regions\<lparr>multiSelectRegions := {|1, 2|}\<rparr>))) = 4 \<and>
   multiSelectRegions (mergeSelectedRegions 7 (three_regions\<lparr>multiSelectRegions := {|1, 2|}\<rparr>)) = {||} \<and>
   distinct (map region_id (regions (mergeSelectedRegions 7 (three_regions\<lparr>multiSelectRegions := {|1, 2|}\<rparr>))))"
  using mergeSelectedRegions_spec[of "three_regions\<lparr>multiSelectRegions := {|2|}\<rparr>" 7]
    mergeSelectedRegions_spec[of "three_regions\<lparr>multiSelectRegions := {|1, 2|}\<rparr>" 7]
  by (simp add: three_regions_simps selected_def unselected_def total_parts_def fcard_finsert_if)

subsection \<open>Hit classification\<close>

lemma hit_regions_append:
  "hit_regions s pos (xs @ ys) =
     (case hit_regions s pos xs of Some h \<Rightarrow> Some h | None \<Rightarrow> hit_regions s pos ys)"
  by (induction xs) (auto split: option.splits)

lemma getHitRegion_snoc:
  "regions s = rs @ [r] \<Longrightarrow>
   getHitRegion s pos =
     (case hit_in_region s pos r of
        Some h \<Rightarrow> h
      | None \<Rightarrow> (case hit_regions s pos (rev rs) of Some h \<Rightarrow> h | None \<Rightarrow> no_hit))"
  by (simp add: getHitRegion_def split: option.splits)






lemma hit_part_at_region:
  "hit_part_at s pos r j p = Some h \<Longrightarrow>
     hit_region h = Some r \<and> hit_part h = Some p \<and> hit_partIndex h = int j"
  by (cases p) (auto simp: mk_hit_def split: option.splits if_splits)

lemma hit_parts_first:
  "hit_parts s pos r ps j = Some h \<Longrightarrow>
   \<exists>q < length ps. hit_part_at s pos r (j + q) (ps ! q) = Some h \<and>
     (\<forall>q' < q. hit_part_at s pos r (j + q') (ps ! q') = None)"
proof (induction ps arbitrary: j)
  case Nil
  then show ?case by simp
next
  case (Cons p ps)
  show ?case
  proof (cases "hit_part_at s pos r j p")
    case None
    with Cons.prems have "hit_parts s pos r ps (Suc j) = Some h" by simp
    from Cons.IH[OF this] obtain q where q: "q < length ps"
      "hit_part_at s pos r (Suc j + q) (ps ! q) = Some h"
      "\<forall>q' < q. hit_part_at s pos r (Suc j + q') (ps ! q') = None" by blast
    have "\<forall>q' < Suc q. hit_part_at s pos r (j + q') ((p # ps) ! q') = None"
    proof (intro allI impI)
      fix q' assume "q' < Suc q"
      then show "hit_part_at s pos r (j + q') ((p # ps) ! q') = None"
        using None q(3) by (cases q') auto
    qed
    with q(1,2) show ?thesis by (intro exI[of _ "Suc q"]) simp
  next
    case (Some a)
    with Cons.prems have "a = h" by simp
    with Some show ?thesis by (intro exI[of _ 0]) simp
  qed
qed

lemma hit_in_region_first:
  "hit_in_region s pos r = Some h \<Longrightarrow>
   \<exists>q < length (parts r). hit_part_at s pos r q (parts r ! q) = Some h \<and>
     (\<forall>q' < q. hit_part_at s pos r q' (parts r ! q') = None)"
  using hit_parts_first[of s pos r "parts r" 0 h] by (simp add: hit_in_region_def)

lemma hit_in_region_region:
  "hit_in_region s pos r = Some h \<Longrightarrow> hit_region h = Some r"
  using hit_in_region_first[of s pos r h] hit_part_at_region by blast




lemma hit_regions_rev_topmost:
  "hit_regions s pos (rev rs) = Some h \<Longrightarrow>
   \<exists>k < length rs. hit_in_region s pos (rs ! k) = Some h \<and>
     (\<forall>m. k < m \<and> m < length rs \<longrightarrow> hit_in_region s pos (rs ! m) = None)"
proof (induction rs rule: rev_induct)
  case Nil
  then show ?case by simp
next
  case (snoc r rs)
  show ?case
  proof (cases "hit_in_region s pos r")
    case None
    with snoc.prems have "hit_regions s pos (rev rs) = Some h" by simp
    from snoc.IH[OF this] obtain k where k: "k < length rs" "hit_in_region s pos (rs ! k) = Some h"
      "\<forall>m. k < m \<and> m < length rs \<longrightarrow> hit_in_region s pos (rs ! m) = None" by blast
    have "\<forall>m. k < m \<and> m < length (rs @ [r]) \<longrightarrow> hit_in_region s pos ((rs @ [r]) ! m) = None"
      using k(3) None by (auto simp: nth_append less_Suc_eq)
    with k(1,2) show ?thesis by (intro exI[of _ k]) (simp add: nth_append)
  next
    case (Some a)
    with snoc.prems have "a = h" by simp
    with Some show ?thesis by (intro exI[of _ "length rs"]) auto
  qed
qed





subsection \<open>The merged region is on top\<close>

text \<open>
  \<^bold>\<open>C10.\<close> When \<open>k \<ge> 2\<close> regions of a collection with distinct ids are selected, the
  merged region is the last element of the new collection and the elements before it are
  the regions that were not selected, in the order they had. Being last, the merged
  region is the first one \<^verbatim>\<open>getHitRegion\<close> tests: a match in it is the result, and the
  other regions are consulted only when it has none.
\<close>

theorem merged_region_is_topmost:
  assumes "distinct (map region_id (regions s))" and "2 \<le> length (selected s)"
  shows "regions (mergeSelectedRegions now s) =
           unselected s @ [Region now (concat (map parts (selected s)))] \<and>
         last (regions (mergeSelectedRegions now s)) = Region now (concat (map parts (selected s))) \<and>
         butlast (regions (mergeSelectedRegions now s)) =
           filter (\<lambda>r. \<not> region_id r |\<in>| multiSelectRegions s) (regions s) \<and>
         getHitRegion (mergeSelectedRegions now s) pos =
           (case hit_in_region (mergeSelectedRegions now s) pos
                   (Region now (concat (map parts (selected s)))) of
              Some h \<Rightarrow> h
            | None \<Rightarrow>
               (case hit_regions (mergeSelectedRegions now s) pos (rev (unselected s)) of
                  Some h \<Rightarrow> h
                | None \<Rightarrow> no_hit))"
proof -
  have "length (selected s) \<le> fcard (multiSelectRegions s)"
    unfolding selected_def by (rule sel_le_fcard[OF assms(1)])
  with assms(2) have c: "2 \<le> fcard (multiSelectRegions s)" by simp
  have r: "regions (mergeSelectedRegions now s) =
      unselected s @ [Region now (concat (map parts (selected s)))]"
    by (simp add: merge_regions[OF c])
  show ?thesis
    using getHitRegion_snoc[OF r, of pos] by (simp add: r) (simp add: unselected_def)
qed

theorem merged_region_is_topmost_witness:
  "distinct (map region_id (regions (three_regions\<lparr>multiSelectRegions := {|1, 2|}\<rparr>))) \<and>
   2 \<le> length (selected (three_regions\<lparr>multiSelectRegions := {|1, 2|}\<rparr>)) \<and>
   regions (mergeSelectedRegions 7 (three_regions\<lparr>multiSelectRegions := {|1, 2|}\<rparr>)) =
     [Region 3 [Rect 150 120 400 300],
      Region 7 [Rect 100 100 200 200, Rect 200 150 300 200,
                Poly [Point 10 10, Point 60 10, Point 10 60]]] \<and>
   hit_region (getHitRegion (mergeSelectedRegions 7 (three_regions\<lparr>multiSelectRegions := {|1, 2|}\<rparr>))
       (Point 250 200)) =
     Some (Region 7 [Rect 100 100 200 200, Rect 200 150 300 200,
                     Poly [Point 10 10, Point 60 10, Point 10 60]])"
  using merged_region_is_topmost[of "three_regions\<lparr>multiSelectRegions := {|1, 2|}\<rparr>" 7 "Point 250 200"]
  by (simp add: three_regions_simps selected_def unselected_def fcard_finsert_if
      mergeSelectedRegions_def getHitRegion_def hit_in_region_def
      normal_mode_def threshold_def HANDLE_SIZE_def fl_ops hit_handles_def mk_hit_def body_cursor_def)

subsection \<open>Switching modes\<close>

lemma toggleSelectMode_on:
  "\<not> isSelectMode s \<Longrightarrow>
     isSelectMode (toggleSelectMode s) \<and> \<not> isWaitingForPointClick (toggleSelectMode s) \<and>
     \<not> isDeletePointMode (toggleSelectMode s) \<and> \<not> isDeleteRegionMode (toggleSelectMode s) \<and>
     multiSelectRegions (toggleSelectMode s) = {||}"
  by (simp add: toggleSelectMode_def cancelAddPointMode_def Let_def)

lemma startAddPointMode_on:
  "\<not> isWaitingForPointClick s \<Longrightarrow>
     \<not> isSelectMode (startAddPointMode s) \<and> isWaitingForPointClick (startAddPointMode s) \<and>
     \<not> isDeletePointMode (startAddPointMode s) \<and> \<not> isDeleteRegionMode (startAddPointMode s) \<and>
     multiSelectRegions (startAddPointMode s) = {||}"
  by (simp add: startAddPointMode_def cancelAddPointMode_def Let_def)

lemma toggleDeletePointMode_on:
  "\<not> isDeletePointMode s \<Longrightarrow>
     \<not> isSelectMode (toggleDeletePointMode s) \<and> \<not> isWaitingForPointClick (toggleDeletePointMode s) \<and>
     isDeletePointMode (toggleDeletePointMode s) \<and> \<not> isDeleteRegionMode (toggleDeletePointMode s) \<and>
     multiSelectRegions (toggleDeletePointMode s) = multiSelectRegions s"
  by (simp add: toggleDeletePointMode_def cancelAddPointMode_def Let_def)

lemma toggleDeleteRegionMode_on:
  "\<not> isDeleteRegionMode s \<Longrightarrow>
     \<not> isSelectMode (toggleDeleteRegionMode s) \<and> \<not> isWaitingForPointClick (toggleDeleteRegionMode s) \<and>
     \<not> isDeletePointMode (toggleDeleteRegionMode s) \<and> isDeleteRegionMode (toggleDeleteRegionMode s) \<and>
     multiSelectRegions (toggleDeleteRegionMode s) = multiSelectRegions s"
  by (simp add: toggleDeleteRegionMode_def cancelAddPointMode_def Let_def)

lemma selecting_two_reached:
  "and_then (onMouseDown (Point 120 110) (toggleSelectMode three_regions)) (onMouseDown (Point 20 20))
     = Inr selecting_two"
  by (simp add: and_then_def onMouseDown_def toggleSelectMode_def three_regions_simps
      selecting_two_def getHitRegion_def hit_in_region_def normal_mode_def threshold_def
      HANDLE_SIZE_def fl_ops mk_hit_def body_cursor_def pointInPolygon_def intersect_def upt_rec
      cancelAddPointMode_def Let_def finsert_commute)

text \<open>
  \<^bold>\<open>C2.\<close> Entering delete-point mode or delete-region mode does not clear the
  multi-selection, as entering the other two modes does. In the state \<open>selecting_two\<close> (select
  mode with regions 1 and 2 selected), \<^verbatim>\<open>toggleDeletePointMode\<close> and
  \<^verbatim>\<open>toggleDeleteRegionMode\<close> each leave exactly one mode active, but the multi-select set
  still holds both ids; \<^verbatim>\<open>startAddPointMode\<close> on the same state empties it.
\<close>

theorem delete_modes_keep_selection:
  "isSelectMode selecting_two \<and> multiSelectRegions selecting_two = {|1, 2|} \<and>
   isDeletePointMode (toggleDeletePointMode selecting_two) \<and>
   active_modes (toggleDeletePointMode selecting_two) = 1 \<and>
   multiSelectRegions (toggleDeletePointMode selecting_two) = {|1, 2|} \<and>
   isDeleteRegionMode (toggleDeleteRegionMode selecting_two) \<and>
   active_modes (toggleDeleteRegionMode selecting_two) = 1 \<and>
   multiSelectRegions (toggleDeleteRegionMode selecting_two) = {|1, 2|} \<and>
   multiSelectRegions (startAddPointMode selecting_two) = {||}"
  by (simp add: selecting_two_def three_regions_simps toggleDeletePointMode_def
      toggleDeleteRegionMode_def startAddPointMode_def cancelAddPointMode_def active_modes_def)

text \<open>What the kept selection leads to: after delete-region mode is entered from
  \<open>selecting_two\<close> and both selected regions are deleted by a press on their bodies, the
  set still holds two ids, so \<^verbatim>\<open>mergeSelectedRegions\<close> runs and appends a region without
  parts.\<close>

lemma stale_selection_merges_to_empty_region:
  "map_sum id (\<lambda>s. regions (mergeSelectedRegions 9 s))
     (and_then (onMouseDown (Point 120 110) (toggleDeleteRegionMode selecting_two))
        (onMouseDown (Point 20 20))) =
   Inr [Region 3 [Rect 150 120 400 300], Region 9 []]"
  by (simp add: and_then_def onMouseDown_def toggleDeleteRegionMode_def selecting_two_def
      three_regions_simps getHitRegion_def hit_in_region_def normal_mode_def threshold_def
      HANDLE_SIZE_def fl_ops mk_hit_def body_cursor_def pointInPolygon_def intersect_def upt_rec
      cancelAddPointMode_def mergeSelectedRegions_def hypot_less_iff Let_def fcard_finsert_if)

subsection \<open>Body drag\<close>

lemma points_canMove_eq:
  "points_canMove (Some img) dx dy pts =
     Inr (\<not> list_ex (\<lambda>p. fadd (pt_x p) dx < 0 \<or> fadd (pt_y p) dy < 0 \<or>
             fadd (pt_x p) dx > real (naturalWidth img) \<or>
             fadd (pt_y p) dy > real (naturalHeight img)) pts)"
  by (induction pts) (auto simp: exits_def)

lemma parts_canMove_eq:
  "parts_canMove (Some img) dx dy ps =
     Inr (\<not> list_ex (part_leaves (real (naturalWidth img)) (real (naturalHeight img)) dx dy) ps)"
proof (induction ps)
  case Nil
  then show ?case by simp
next
  case (Cons p ps)
  then show ?case
    by (cases p) (auto simp: exits_def points_canMove_eq)
qed

lemma put_same_region:
  "i < length (regions s) \<Longrightarrow>
   s\<lparr>regions := (regions s)[i := Region (region_id (regions s ! i)) (parts (regions s ! i))]\<rparr> = s"
  by simp

lemma drag_body:
  assumes "isDragging (draggingState s)" and "dragMode (draggingState s) = Some Body"
    and "selectedRegion (draggingState s) = Some sel"
    and "findIndex (\<lambda>r. region_id r = region_id sel) (regions s) = Some ri"
  shows "onMouseMove pos s =
     (case parts_canMove (originalImage s) (fsub (pt_x pos) (pt_x (mouseOffset (draggingState s))))
             (fsub (pt_y pos) (pt_y (mouseOffset (draggingState s)))) (parts (regions s ! ri)) of
        Inl e \<Rightarrow> Inl e
      | Inr canMove \<Rightarrow>
          Inr (if canMove
               then s\<lparr>regions := (regions s)[ri := Region (region_id (regions s ! ri))
                       (map (translate_part (fsub (pt_x pos) (pt_x (mouseOffset (draggingState s))))
                              (fsub (pt_y pos) (pt_y (mouseOffset (draggingState s)))))
                          (parts (regions s ! ri)))],
                      draggingState := (draggingState s)\<lparr>mouseOffset := pos\<rparr>\<rparr>
               else s))"
proof -
  have ri: "ri < length (regions s)" using findIndex_Some[OF assms(4)] by simp
  show ?thesis
    using assms put_same_region[OF ri]
    by (simp add: onMouseMove_def drag_updater_def Let_def split: sum.splits)
qed

text \<open>
  \<^bold>\<open>C1.\<close> A pointer-move sample at \<open>pos\<close> during a body drag of the region at index
  \<open>ri\<close>, with \<open>(dx, dy)\<close> the distance of \<open>pos\<close> from the anchor. If some part of the
  region, translated by \<open>(dx, dy)\<close>, leaves the image, the whole state is returned as it
  is: no part has moved and the anchor is where it was. Otherwise every part of the
  region is translated by \<open>(dx, dy)\<close>, nothing else in the collection changes, and the
  anchor is \<open>pos\<close>. The differences and the sums are those of doubles, in the order in
  which the source takes them: \<open>part_leaves\<close> tests \<open>x + dx\<close>, \<open>y + dy\<close>, \<open>(x + w) + dx\<close>
  and \<open>(y + h) + dy\<close>, and the translation stores \<open>x + dx\<close> and \<open>y + dy\<close>.
\<close>

theorem body_drag_all_or_nothing:
  assumes "isDragging (draggingState s)" and "dragMode (draggingState s) = Some Body"
    and "selectedRegion (draggingState s) = Some sel"
    and "findIndex (\<lambda>r. region_id r = region_id sel) (regions s) = Some ri"
    and "originalImage s = Some img"
    and "dx = fsub (pt_x pos) (pt_x (mouseOffset (draggingState s)))"
    and "dy = fsub (pt_y pos) (pt_y (mouseOffset (draggingState s)))"
  shows "onMouseMove pos s =
     Inr (if list_ex (part_leaves (real (naturalWidth img)) (real (naturalHeight img)) dx dy)
               (parts (regions s ! ri))
          then s
          else s\<lparr>regions := (regions s)[ri := Region (region_id (regions s ! ri))
                                (map (translate_part dx dy) (parts (regions s ! ri)))],
                 draggingState := (draggingState s)\<lparr>mouseOffset := pos\<rparr>\<rparr>)"
  using drag_body[OF assms(1-4), of pos]
  by (simp add: assms(5) parts_canMove_eq assms(6,7)[symmetric])

lemma dragging_region_2_reached:
  "onMouseDown (Point 20 20) three_regions = Inr dragging_region_2"
  by (simp add: onMouseDown_def three_regions_simps dragging_region_2_def getHitRegion_def
      hit_in_region_def normal_mode_def threshold_def HANDLE_SIZE_def fl_ops hit_handles_def
      hypot_less_iff mk_hit_def body_cursor_def pointInPolygon_def intersect_def upt_rec Let_def)

lemma dragging_region_2_simps:
  "regions dragging_region_2 =
     [Region 1 [Rect 100 100 200 200], Region 3 [Rect 150 120 400 300],
      Region 2 [Rect 200 150 300 200, Poly [Point 10 10, Point 60 10, Point 10 60]]]"
  "draggingState dragging_region_2 =
     \<lparr>isDragging = True,
      selectedRegion = Some (Region 2 [Rect 200 150 300 200, Poly [Point 10 10, Point 60 10, Point 10 60]]),
      selectedPartIndex = 1, selectedVertexIndex = - 1, dragMode = Some Body,
      mouseOffset = Point 20 20\<rparr>"
  "originalImage dragging_region_2 = Some \<lparr>naturalWidth = 800, naturalHeight = 600\<rparr>"
  by (simp_all add: dragging_region_2_def three_regions_simps)

theorem body_drag_all_or_nothing_witness:
  "isDragging (draggingState dragging_region_2) \<and>
   dragMode (draggingState dragging_region_2) = Some Body \<and>
   findIndex (\<lambda>r. region_id r = 2) (regions dragging_region_2) = Some 2 \<and>
   onMouseMove (Point 5 20) dragging_region_2 = Inr dragging_region_2 \<and>
   onMouseMove (Point 30 25) dragging_region_2 =
     Inr (dragging_region_2
           \<lparr>regions := [Region 1 [Rect 100 100 200 200], Region 3 [Rect 150 120 400 300],
                        Region 2 [Rect 210 155 300 200, Poly [Point 20 15, Point 70 15, Point 20 65]]],
            draggingState := (draggingState dragging_region_2)\<lparr>mouseOffset := Point 30 25\<rparr>\<rparr>)"
proof -
  let ?r2 = "Region 2 [Rect 200 150 300 200, Poly [Point 10 10, Point 60 10, Point 10 60]]"
  let ?img = "\<lparr>naturalWidth = 800, naturalHeight = 600\<rparr>"
  have h: "isDragging (draggingState dragging_region_2)"
    "dragMode (draggingState dragging_region_2) = Some Body"
    "selectedRegion (draggingState dragging_region_2) = Some ?r2"
    "findIndex (\<lambda>r. region_id r = region_id ?r2) (regions dragging_region_2) = Some 2"
    "originalImage dragging_region_2 = Some ?img"
    by (simp_all add: dragging_region_2_simps)
  have a: "- 15 = fsub (pt_x (Point 5 20)) (pt_x (mouseOffset (draggingState dragging_region_2)))"
    "0 = fsub (pt_y (Point 5 20)) (pt_y (mouseOffset (draggingState dragging_region_2)))"
    "10 = fsub (pt_x (Point 30 25)) (pt_x (mouseOffset (draggingState dragging_region_2)))"
    "5 = fsub (pt_y (Point 30 25)) (pt_y (mouseOffset (draggingState dragging_region_2)))"
    by (simp_all add: dragging_region_2_simps fl_ops)
  have rejected: "onMouseMove (Point 5 20) dragging_region_2 = Inr dragging_region_2"
    using body_drag_all_or_nothing[OF h a(1,2)] by (simp add: dragging_region_2_simps fl_ops)
  have moved: "onMouseMove (Point 30 25) dragging_region_2 =
     Inr (dragging_region_2
           \<lparr>regions := [Region 1 [Rect 100 100 200 200], Region 3 [Rect 150 120 400 300],
                        Region 2 [Rect 210 155 300 200, Poly [Point 20 15, Point 70 15, Point 20 65]]],
            draggingState := (draggingState dragging_region_2)\<lparr>mouseOffset := Point 30 25\<rparr>\<rparr>)"
    using body_drag_all_or_nothing[OF h a(3,4)] by (simp add: dragging_region_2_simps fl_ops)
  from h(1,2,4) rejected moved show ?thesis by simp
qed

subsection \<open>Inserting a vertex\<close>



subsection \<open>Resizing a rectangle\<close>

lemma resize_rect_props:
  assumes "is_handle mode"
    and "resize_switch mode img pos ox oy ow oh = (x0, y0, w0, h0)"
    and "resize_rect mode img m pos ox oy ow oh = Rect x' y' w' h'"
  shows "m \<le> w' \<and> m \<le> h' \<and>
     (w0 < m \<longrightarrow> w' = m \<and>
        x' = (if mode \<in> {Handle_w, Handle_nw, Handle_sw} then fsub (fadd ox ow) m else x0)) \<and>
     (m \<le> w0 \<longrightarrow> w' = w0 \<and> x' = x0) \<and>
     (h0 < m \<longrightarrow> h' = m \<and>
        y' = (if mode \<in> {Handle_n, Handle_nw, Handle_ne} then fsub (fadd oy oh) m else y0)) \<and>
     (m \<le> h0 \<longrightarrow> h' = h0 \<and> y' = y0) \<and>
     (mode \<in> {Handle_w, Handle_nw, Handle_sw} \<longrightarrow>
        (if w0 < m then x' = fsub (fadd ox ow) w' else w' = fsub (fadd ox ow) x') \<and>
        \<bar>x' + w' - fadd ox ow\<bar> \<le> rounding_bound (fadd ox ow - (if w0 < m then w' else x'))) \<and>
     (mode \<in> {Handle_e, Handle_ne, Handle_se, Handle_n, Handle_s} \<longrightarrow> x' = ox) \<and>
     (mode \<in> {Handle_n, Handle_nw, Handle_ne} \<longrightarrow>
        (if h0 < m then y' = fsub (fadd oy oh) h' else h' = fsub (fadd oy oh) y') \<and>
        \<bar>y' + h' - fadd oy oh\<bar> \<le> rounding_bound (fadd oy oh - (if h0 < m then h' else y'))) \<and>
     (mode \<in> {Handle_s, Handle_se, Handle_sw, Handle_e, Handle_w} \<longrightarrow> y' = oy)"
  using assms
  by (cases mode)
     (auto simp: is_handle_def resize_rect_def resize_switch_def Let_def fsub_restores
           split: if_splits)

lemma resize_rect_is_Rect: "\<exists>x' y' w' h'. resize_rect mode img m pos ox oy ow oh = Rect x' y' w' h'"
  by (cases "resize_switch mode img pos ox oy ow oh") (simp add: resize_rect_def Let_def)

lemma drag_resize:
  assumes "isDragging (draggingState s)" and "dragMode (draggingState s) = Some mode"
    and "mode \<noteq> Body"
    and "selectedRegion (draggingState s) = Some sel"
    and "findIndex (\<lambda>r. region_id r = region_id sel) (regions s) = Some ri"
    and "nth_js (parts (regions s ! ri)) (selectedPartIndex (draggingState s)) = Some (Rect ox oy ow oh)"
  shows "onMouseMove pos s =
     Inr (s\<lparr>regions := (regions s)[ri := Region (region_id (regions s ! ri))
            ((parts (regions s ! ri))[nat (selectedPartIndex (draggingState s)) :=
               resize_rect mode (originalImage s) (threshold s) pos ox oy ow oh])]\<rparr>)"
  using assms by (simp add: onMouseMove_def drag_updater_def Let_def)

lemma resizing_at_zoom_simps:
  "regions resizing_at_zoom = [Region 1 [Rect 325 225 (244335917283555 / 17592186044416) 150]]"
  "draggingState resizing_at_zoom =
     \<lparr>isDragging = True,
      selectedRegion = Some (Region 1 [Rect 325 225 (244335917283555 / 17592186044416) 150]),
      selectedPartIndex = 0, selectedVertexIndex = - 1, dragMode = Some Handle_w,
      mouseOffset = Point 325 300\<rparr>"
  "originalImage resizing_at_zoom = Some \<lparr>naturalWidth = 800, naturalHeight = 600\<rparr>"
  "viewTransform resizing_at_zoom = \<lparr>zoom = 8106479329266893 / 9007199254740992, offset = Point 0 0\<rparr>"
  by (simp_all add: resizing_at_zoom_def imageLoaded_def initial_editor_def)

text \<open>The operations of the sample below on their doubles: \<open>12 / 0.9\<close> is
  \<open>13.333333333333332\<close>; the right edge \<open>325 + 13.888888888888857\<close> is
  \<open>338.88888888888886\<close>; less \<open>38.888888888888886\<close> it is \<open>300\<close>, the exact difference
  being \<open>2 powi (- 45)\<close> below; and \<open>38.888888888888886 + 300\<close> is \<open>338.8888888888889\<close>.\<close>

lemma resizing_at_zoom_doubles:
  "fdiv 12 (8106479329266893 / 9007199254740992) = 3752999689475413 / 281474976710656"
  "fadd 325 (244335917283555 / 17592186044416) = 5961796381718755 / 17592186044416"
  "fsub (5961796381718755 / 17592186044416) (1368281136787911 / 35184372088832) = 300"
  "fadd (1368281136787911 / 35184372088832) 300 = 1490449095429689 / 4398046511104"
proof -
  show "fdiv 12 (8106479329266893 / 9007199254740992) = 3752999689475413 / 281474976710656"
    unfolding fdiv_def by (subst fl_eval[where e = 3]) (simp_all add: rne_def)
  show "fadd 325 (244335917283555 / 17592186044416) = 5961796381718755 / 17592186044416"
    unfolding fadd_def by (subst fl_eval[where e = 8]) (simp_all add: rne_def)
  show "fsub (5961796381718755 / 17592186044416) (1368281136787911 / 35184372088832) = 300"
    unfolding fsub_def by (subst fl_eval[where e = 8]) (simp_all add: rne_def)
  show "fadd (1368281136787911 / 35184372088832) 300 = 1490449095429689 / 4398046511104"
    unfolding fadd_def by (subst fl_eval[where e = 8]) (simp_all add: rne_def)
qed

text \<open>
  \<^bold>\<open>C6, as stated,\<close> fails for the edge opposite a handle of the west side (and, in the
  same way, of the north side): the source keeps \<open>x\<close> and the width, and computes the
  width as the old right edge less the new \<open>x\<close>, rounded to a double. In
  \<open>resizing_at_zoom\<close> the west handle of the rectangle
  \<open>(325, 225, 13.888888888888857, 150)\<close> is dragged, at zoom 0.9. A sample at
  \<open>(38.888888888888886, 300)\<close> makes it \<open>(38.888888888888886, 225, 300, 150)\<close>. Its right
  edge was \<open>338.88888888888886\<close> and is now \<open>338.8888888888889\<close>: the sums \<open>x + w\<close> differ
  as reals and as doubles.
\<close>

theorem resize_moves_opposite_edge_counterexample:
  "regions resizing_at_zoom = [Region 1 [Rect 325 225 (244335917283555 / 17592186044416) 150]] \<and>
   isDragging (draggingState resizing_at_zoom) \<and>
   dragMode (draggingState resizing_at_zoom) = Some Handle_w \<and>
   onMouseMove (Point (1368281136787911 / 35184372088832) 300) resizing_at_zoom =
     Inr (resizing_at_zoom
           \<lparr>regions := [Region 1 [Rect (1368281136787911 / 35184372088832) 225 300 150]]\<rparr>) \<and>
   1368281136787911 / 35184372088832 + 300 \<noteq> (325 + 244335917283555 / 17592186044416 :: real) \<and>
   fadd (1368281136787911 / 35184372088832) 300 \<noteq> fadd 325 (244335917283555 / 17592186044416)"
  by (simp add: resizing_at_zoom_simps onMouseMove_def drag_updater_def nth_js_def threshold_def
      HANDLE_SIZE_def resize_rect_def resize_switch_def clampX_def clampY_def Let_def
      resizing_at_zoom_doubles)

text \<open>
  \<^bold>\<open>C6, as amended.\<close> A pointer-move sample during a resize by one of the eight handles,
  at a zoom above 0, where \<open>m\<close> is the double \<^verbatim>\<open>HANDLE_SIZE / zoom\<close> and
  \<open>(x0, y0, w0, h0)\<close> is what the \<^verbatim>\<open>switch\<close> computes from the old rectangle
  \<open>(ox, oy, ow, oh)\<close> and the clamped pointer. The part becomes a rectangle
  \<open>(x', y', w', h')\<close> and nothing else changes. Its width and height are at least \<open>m\<close>.
  A width below \<open>m\<close> becomes exactly \<open>m\<close>, and \<open>x\<close> is moved for the handles w, nw and
  sw only; likewise a height below \<open>m\<close>, with \<open>y\<close> moved for n, nw and ne only. For the
  handles that do not touch it, the near coordinate stays: \<open>x' = ox\<close> for e, ne, se, n,
  s and \<open>y' = oy\<close> for s, se, sw, e, w. For w, nw and sw, \<open>x'\<close> and \<open>w'\<close> come from the old
  right edge, the double \<open>ox + ow\<close>: the width is that edge less \<open>x'\<close>, or, when the width
  was raised to \<open>m\<close>, \<open>x'\<close> is that edge less the width, each rounded to a double;
  likewise \<open>y'\<close> and \<open>h'\<close> for n, nw and ne. So \<open>x' + w'\<close> is the old right edge up to
  the rounding of that one difference, \<open>rounding_bound\<close> of it at most, and \<open>y' + h'\<close> the
  old bottom edge.
\<close>

theorem resize_keeps_minimum_size:
  assumes "isDragging (draggingState s)" and "dragMode (draggingState s) = Some mode"
    and "is_handle mode"
    and "selectedRegion (draggingState s) = Some sel"
    and "findIndex (\<lambda>r. region_id r = region_id sel) (regions s) = Some ri"
    and "nth_js (parts (regions s ! ri)) (selectedPartIndex (draggingState s)) = Some (Rect ox oy ow oh)"
    and "0 < zoom (viewTransform s)"
    and "m = fdiv HANDLE_SIZE (zoom (viewTransform s))"
    and "resize_switch mode (originalImage s) pos ox oy ow oh = (x0, y0, w0, h0)"
  shows "\<exists>x' y' w' h'.
     onMouseMove pos s =
       Inr (s\<lparr>regions := (regions s)[ri := Region (region_id (regions s ! ri))
              ((parts (regions s ! ri))[nat (selectedPartIndex (draggingState s)) := Rect x' y' w' h'])]\<rparr>) \<and>
     m \<le> w' \<and> m \<le> h' \<and>
     (w0 < m \<longrightarrow> w' = m \<and>
        x' = (if mode \<in> {Handle_w, Handle_nw, Handle_sw} then fsub (fadd ox ow) m else x0)) \<and>
     (m \<le> w0 \<longrightarrow> w' = w0 \<and> x' = x0) \<and>
     (h0 < m \<longrightarrow> h' = m \<and>
        y' = (if mode \<in> {Handle_n, Handle_nw, Handle_ne} then fsub (fadd oy oh) m else y0)) \<and>
     (m \<le> h0 \<longrightarrow> h' = h0 \<and> y' = y0) \<and>
     (mode \<in> {Handle_w, Handle_nw, Handle_sw} \<longrightarrow>
        (if w0 < m then x' = fsub (fadd ox ow) w' else w' = fsub (fadd ox ow) x') \<and>
        \<bar>x' + w' - fadd ox ow\<bar> \<le> rounding_bound (fadd ox ow - (if w0 < m then w' else x'))) \<and>
     (mode \<in> {Handle_e, Handle_ne, Handle_se, Handle_n, Handle_s} \<longrightarrow> x' = ox) \<and>
     (mode \<in> {Handle_n, Handle_nw, Handle_ne} \<longrightarrow>
        (if h0 < m then y' = fsub (fadd oy oh) h' else h' = fsub (fadd oy oh) y') \<and>
        \<bar>y' + h' - fadd oy oh\<bar> \<le> rounding_bound (fadd oy oh - (if h0 < m then h' else y'))) \<and>
     (mode \<in> {Handle_s, Handle_se, Handle_sw, Handle_e, Handle_w} \<longrightarrow> y' = oy)"
proof -
  obtain x' y' w' h' where
    r: "resize_rect mode (originalImage s) m pos ox oy ow oh = Rect x' y' w' h'"
    using resize_rect_is_Rect by blast
  have nb: "mode \<noteq> Body" using assms(3) by (simp add: is_handle_def)
  have "onMouseMove pos s =
       Inr (s\<lparr>regions := (regions s)[ri := Region (region_id (regions s ! ri))
              ((parts (regions s ! ri))[nat (selectedPartIndex (draggingState s)) := Rect x' y' w' h'])]\<rparr>)"
    using drag_resize[OF assms(1,2) nb assms(4,5,6), of pos] r
    by (simp add: threshold_def assms(8))
  with resize_rect_props[OF assms(3) assms(9) r] show ?thesis by blast
qed

lemma resizing_region_1_reached:
  "onMouseDown (Point 100 100) three_regions = Inr resizing_region_1"
  by (simp add: onMouseDown_def three_regions_simps resizing_region_1_def getHitRegion_def
      hit_in_region_def normal_mode_def threshold_def HANDLE_SIZE_def fl_ops hit_handles_def
      hypot_less_iff mk_hit_def body_cursor_def pointInPolygon_def intersect_def upt_rec Let_def)

lemma resizing_region_1_simps:
  "regions resizing_region_1 =
     [Region 2 [Rect 200 150 300 200, Poly [Point 10 10, Point 60 10, Point 10 60]],
      Region 3 [Rect 150 120 400 300], Region 1 [Rect 100 100 200 200]]"
  "draggingState resizing_region_1 =
     \<lparr>isDragging = True, selectedRegion = Some (Region 1 [Rect 100 100 200 200]),
      selectedPartIndex = 0, selectedVertexIndex = - 1, dragMode = Some Handle_nw,
      mouseOffset = Point 100 100\<rparr>"
  "originalImage resizing_region_1 = Some \<lparr>naturalWidth = 800, naturalHeight = 600\<rparr>"
  "viewTransform resizing_region_1 = \<lparr>zoom = 1, offset = Point 0 0\<rparr>"
  by (simp_all add: resizing_region_1_def three_regions_simps)

theorem resize_keeps_minimum_size_witness:
  "isDragging (draggingState resizing_region_1) \<and>
   dragMode (draggingState resizing_region_1) = Some Handle_nw \<and> is_handle Handle_nw \<and>
   (0::real) < zoom (viewTransform resizing_region_1) \<and>
   resize_switch Handle_nw (originalImage resizing_region_1) (Point 295 150) 100 100 200 200 =
     (295, 150, 5, 150) \<and>
   onMouseMove (Point 295 150) resizing_region_1 =
     Inr (resizing_region_1
           \<lparr>regions := [Region 2 [Rect 200 150 300 200, Poly [Point 10 10, Point 60 10, Point 10 60]],
                        Region 3 [Rect 150 120 400 300], Region 1 [Rect 288 150 12 150]]\<rparr>)"
proof -
  let ?r1 = "Region 1 [Rect 100 100 200 200]"
  have h: "isDragging (draggingState resizing_region_1)"
    "dragMode (draggingState resizing_region_1) = Some Handle_nw"
    "is_handle Handle_nw"
    "selectedRegion (draggingState resizing_region_1) = Some ?r1"
    "findIndex (\<lambda>r. region_id r = region_id ?r1) (regions resizing_region_1) = Some 2"
    "nth_js (parts (regions resizing_region_1 ! 2)) (selectedPartIndex (draggingState resizing_region_1)) =
       Some (Rect 100 100 200 200)"
    "0 < zoom (viewTransform resizing_region_1)"
    "12 = fdiv HANDLE_SIZE (zoom (viewTransform resizing_region_1))"
    "resize_switch Handle_nw (originalImage resizing_region_1) (Point 295 150) 100 100 200 200 =
       (295, 150, 5, 150)"
    by (simp_all add: resizing_region_1_simps is_handle_def nth_js_def HANDLE_SIZE_def fl_ops
        resize_switch_def clampX_def clampY_def)
  from resize_keeps_minimum_size[OF h]
  obtain x' y' w' h' where
    m: "onMouseMove (Point 295 150) resizing_region_1 =
       Inr (resizing_region_1\<lparr>regions := (regions resizing_region_1)[2 := Region (region_id (regions resizing_region_1 ! 2))
              ((parts (regions resizing_region_1 ! 2))[nat (selectedPartIndex (draggingState resizing_region_1)) := Rect x' y' w' h'])]\<rparr>)"
    and v: "w' = 12" "x' = fsub (fadd 100 200) 12" "h' = 150" "y' = 150"
    by auto
  from m v have "onMouseMove (Point 295 150) resizing_region_1 =
     Inr (resizing_region_1
           \<lparr>regions := [Region 2 [Rect 200 150 300 200, Poly [Point 10 10, Point 60 10, Point 10 60]],
                        Region 3 [Rect 150 120 400 300], Region 1 [Rect 288 150 12 150]]\<rparr>)"
    by (simp add: resizing_region_1_simps fl_ops)
  with h(1,2,3,7,9) show ?thesis by simp
qed

subsection \<open>Deleting a vertex\<close>

lemma hit_vertices_Some:
  "hit_vertices s h2 pos ps k0 = Some (p, k, c) \<Longrightarrow>
     k0 \<le> k \<and> k - k0 < length ps \<and> p = ps ! (k - k0)"
proof (induction ps arbitrary: k0)
  case Nil
  then show ?case by simp
next
  case (Cons a ps)
  show ?case
  proof (cases "hit_vertices s h2 pos (a # ps) k0 = hit_vertices s h2 pos ps (Suc k0)")
    case True
    with Cons.prems have "hit_vertices s h2 pos ps (Suc k0) = Some (p, k, c)" by simp
    from Cons.IH[OF this] show ?thesis by (auto simp: Suc_diff_le)
  next
    case False
    with Cons.prems have "p = a \<and> k = k0" by (auto split: if_splits)
    then show ?thesis by simp
  qed
qed

lemma hit_part_at_vertex:
  assumes "hit_part_at s pos r j p = Some h" and "hit_vertexIndex h \<noteq> - 1"
  shows "\<exists>ps k. p = Poly ps \<and> k < length ps \<and> hit_vertexIndex h = int k"
proof (cases p)
  case (Rect x y w h')
  with assms show ?thesis by (auto simp: mk_hit_def split: option.splits if_splits)
next
  case (Poly ps)
  show ?thesis
  proof (cases "hit_vertices s (threshold s / 2) pos ps 0")
    case None
    with assms Poly show ?thesis by (auto simp: mk_hit_def split: if_splits)
  next
    case (Some v)
    obtain v1 k c where v: "v = (v1, k, c)" by (cases v) auto
    from hit_vertices_Some[of s "threshold s / 2" pos ps 0 v1 k c] Some v
    have "k < length ps" by simp
    moreover have "hit_vertexIndex h = int k"
      using assms(1) Poly Some v by (auto simp: mk_hit_def)
    ultimately show ?thesis using Poly by blast
  qed
qed

lemma splice_remove_js_nat:
  "k < length xs \<Longrightarrow> splice_remove_js (int k) xs = take k xs @ drop (Suc k) xs"
  by (simp add: splice_remove_js_def splice_remove_def Let_def min_def)

lemma regions_min3_update:
  assumes "regions_min3 rs" and "ri < length rs" and "poly_min3 p'"
  shows "regions_min3 (rs[ri := Region rid ((parts (rs ! ri))[pj := p'])])"
proof -
  have "list_all poly_min3 (parts (rs ! ri))"
    using assms(1,2) by (simp add: regions_min3_def list_all_length)
  then have "list_all poly_min3 ((parts (rs ! ri))[pj := p'])"
    using assms(3) by (auto simp: list_all_iff dest!: set_update_subset_insert[THEN subsetD])
  with assms(1) show ?thesis
    by (auto simp: regions_min3_def list_all_iff dest!: set_update_subset_insert[THEN subsetD])
qed

text \<open>
  \<^bold>\<open>C8.\<close> A press in delete-point mode that \<^verbatim>\<open>getHitRegion\<close> resolves to a vertex, on
  a collection with distinct ids. The hit is vertex \<open>k\<close> of a polygon \<open>ps\<close>, part \<open>pj\<close> of
  the region at index \<open>ri\<close>. With more than three points the polygon loses exactly
  point \<open>k\<close> and keeps the others in order; with three points or fewer the state is
  returned as it is. Nothing else changes, and if every polygon of the collection had
  at least three points before the press, every polygon has at least three after it.
\<close>

theorem deleteVertex_keeps_three:
  assumes "distinct (map region_id (regions s))"
    and "isDeletePointMode s" and "\<not> isDeleteRegionMode s" and "\<not> isWaitingForPointClick s"
    and "hit_vertexIndex (getHitRegion s pos) \<noteq> - 1"
  shows "\<exists>ri pj k ps.
     ri < length (regions s) \<and> pj < length (parts (regions s ! ri)) \<and>
     parts (regions s ! ri) ! pj = Poly ps \<and> k < length ps \<and>
     hit_region (getHitRegion s pos) = Some (regions s ! ri) \<and>
     hit_partIndex (getHitRegion s pos) = int pj \<and>
     hit_vertexIndex (getHitRegion s pos) = int k \<and>
     onMouseDown pos s =
       Inr (s\<lparr>regions := (regions s)[ri := Region (region_id (regions s ! ri))
              ((parts (regions s ! ri))[pj :=
                 Poly (if 3 < length ps then take k ps @ drop (Suc k) ps else ps)])]\<rparr>) \<and>
     (3 < length ps \<longrightarrow> length (take k ps @ drop (Suc k) ps) = length ps - 1) \<and>
     (length ps \<le> 3 \<longrightarrow> onMouseDown pos s = Inr s) \<and>
     (regions_min3 (regions s) \<longrightarrow>
        regions_min3 ((regions s)[ri := Region (region_id (regions s ! ri))
              ((parts (regions s ! ri))[pj :=
                 Poly (if 3 < length ps then take k ps @ drop (Suc k) ps else ps)])]))"
proof -
  let ?rs = "regions s"
  let ?g = "getHitRegion s pos"
  have "?g \<noteq> no_hit" using assms(5) by (auto simp: no_hit_def)
  then obtain h where h: "hit_regions s pos (rev ?rs) = Some h"
    by (auto simp: getHitRegion_def split: option.splits)
  then have g: "?g = h" by (simp add: getHitRegion_def)
  from hit_regions_rev_topmost[OF h] obtain ri where ri: "ri < length ?rs"
    "hit_in_region s pos (?rs ! ri) = Some h" by blast
  from hit_in_region_first[OF ri(2)] obtain pj where pj: "pj < length (parts (?rs ! ri))"
    "hit_part_at s pos (?rs ! ri) pj (parts (?rs ! ri) ! pj) = Some h" by blast
  from hit_part_at_vertex[OF pj(2)] assms(5) g obtain ps k where
    v: "parts (?rs ! ri) ! pj = Poly ps" "k < length ps" "hit_vertexIndex h = int k" by auto
  from hit_part_at_region[OF pj(2)] v(1) have
    r: "hit_region h = Some (?rs ! ri)" "hit_part h = Some (Poly ps)" "hit_partIndex h = int pj"
    by simp_all
  have f: "findIndex (\<lambda>q. region_id q = region_id (?rs ! ri)) ?rs = Some ri"
    using findIndex_distinct[OF assms(1) ri(1)] .
  let ?new = "Poly (if 3 < length ps then take k ps @ drop (Suc k) ps else ps)"
  have dv: "deleteVertex (Poly ps) (int k) = ?new"
    using v(2) by (simp add: splice_remove_js_nat)
  have u: "deletePoint_updater (region_id (?rs ! ri)) (int pj) (int k) ?rs =
      Inr (?rs[ri := Region (region_id (?rs ! ri)) ((parts (?rs ! ri))[pj := ?new])])"
    using f pj(1) v(1) dv by (simp add: deletePoint_updater_def nth_js_nat Let_def)
  have md: "onMouseDown pos s =
      Inr (s\<lparr>regions := ?rs[ri := Region (region_id (?rs ! ri)) ((parts (?rs ! ri))[pj := ?new])]\<rparr>)"
    using assms(2,3,4) g r v(3) u by (simp add: onMouseDown_def Let_def is_poly_def)
  have len: "3 < length ps \<longrightarrow> length (take k ps @ drop (Suc k) ps) = length ps - 1"
    using v(2) by auto
  have noop: "length ps \<le> 3 \<longrightarrow> onMouseDown pos s = Inr s"
  proof
    assume "length ps \<le> 3"
    then have "?new = parts (?rs ! ri) ! pj" using v(1) by simp
    then have "(parts (?rs ! ri))[pj := ?new] = parts (?rs ! ri)" by simp
    with md ri(1) show "onMouseDown pos s = Inr s" by simp
  qed
  have inv: "regions_min3 ?rs \<longrightarrow>
      regions_min3 (?rs[ri := Region (region_id (?rs ! ri)) ((parts (?rs ! ri))[pj := ?new])])"
  proof
    assume a: "regions_min3 ?rs"
    then have "poly_min3 (parts (?rs ! ri) ! pj)"
      using ri(1) pj(1) by (simp add: regions_min3_def list_all_length)
    then have "3 \<le> length ps" using v(1) by simp
    then have "poly_min3 ?new" using v(2) by auto
    from regions_min3_update[OF a ri(1) this]
    show "regions_min3 (?rs[ri := Region (region_id (?rs ! ri)) ((parts (?rs ! ri))[pj := ?new])])" .
  qed
  from ri(1) pj(1) v(1,2) r(1,3) v(3) md len noop inv show ?thesis
    unfolding g by blast
qed

lemma deleting_points_simps:
  "regions deleting_points =
     [Region 1 [Rect 100 100 200 200],
      Region 2 [Rect 200 150 300 200, Poly [Point 10 10, Point 60 10, Point 10 60]],
      Region 3 [Rect 150 120 400 300],
      Region 4 [Poly [Point 600 500, Point 700 500, Point 700 580, Point 600 580]]]"
  "isDeletePointMode deleting_points" "\<not> isDeleteRegionMode deleting_points"
  "\<not> isWaitingForPointClick deleting_points" "\<not> isSelectMode deleting_points"
  "viewTransform deleting_points = \<lparr>zoom = 1, offset = Point 0 0\<rparr>"
  by (simp_all add: deleting_points_def toggleDeletePointMode_def three_regions_simps Let_def)

lemma deleting_points_hits:
  "getHitRegion deleting_points (Point 11 59) =
     mk_hit (Region 2 [Rect 200 150 300 200, Poly [Point 10 10, Point 60 10, Point 10 60]])
       (Poly [Point 10 10, Point 60 10, Point 10 60]) 1 (Some (Point 10 60, 2)) Vertex ''crosshair''"
  "getHitRegion deleting_points (Point 701 501) =
     mk_hit (Region 4 [Poly [Point 600 500, Point 700 500, Point 700 580, Point 600 580]])
       (Poly [Point 600 500, Point 700 500, Point 700 580, Point 600 580]) 0 (Some (Point 700 500, 1))
       Vertex ''crosshair''"
  by (simp_all add: deleting_points_simps getHitRegion_def hit_in_region_def normal_mode_def
      threshold_def HANDLE_SIZE_def fl_ops hypot_less_iff pointInPolygon_def intersect_def upt_rec
      mk_hit_def)

theorem deleteVertex_keeps_three_witness:
  "distinct (map region_id (regions deleting_points)) \<and>
   isDeletePointMode deleting_points \<and> \<not> isDeleteRegionMode deleting_points \<and>
   \<not> isWaitingForPointClick deleting_points \<and>
   hit_vertexIndex (getHitRegion deleting_points (Point 11 59)) = 2 \<and>
   onMouseDown (Point 11 59) deleting_points = Inr deleting_points \<and>
   hit_vertexIndex (getHitRegion deleting_points (Point 701 501)) = 1 \<and>
   onMouseDown (Point 701 501) deleting_points =
     Inr (deleting_points
           \<lparr>regions := [Region 1 [Rect 100 100 200 200],
                        Region 2 [Rect 200 150 300 200, Poly [Point 10 10, Point 60 10, Point 10 60]],
                        Region 3 [Rect 150 120 400 300],
                        Region 4 [Poly [Point 600 500, Point 700 580, Point 600 580]]]\<rparr>)"
proof -
  have h: "distinct (map region_id (regions deleting_points))"
    "isDeletePointMode deleting_points" "\<not> isDeleteRegionMode deleting_points"
    "\<not> isWaitingForPointClick deleting_points"
    by (simp_all add: deleting_points_simps)
  have v: "hit_vertexIndex (getHitRegion deleting_points (Point 11 59)) = 2"
    "hit_vertexIndex (getHitRegion deleting_points (Point 701 501)) = 1"
    by (simp_all add: deleting_points_hits mk_hit_def)
  have v': "hit_vertexIndex (getHitRegion deleting_points (Point 11 59)) \<noteq> - 1"
    "hit_vertexIndex (getHitRegion deleting_points (Point 701 501)) \<noteq> - 1"
    by (simp_all add: v)
  note a = deleteVertex_keeps_three[OF h v'(1)] and b = deleteVertex_keeps_three[OF h v'(2)]
  have kept: "onMouseDown (Point 11 59) deleting_points = Inr deleting_points"
  proof -
    from a obtain ri pj k ps where
      p: "ri < length (regions deleting_points)" "parts (regions deleting_points ! ri) ! pj = Poly ps"
         "pj < length (parts (regions deleting_points ! ri))"
         "hit_region (getHitRegion deleting_points (Point 11 59)) = Some (regions deleting_points ! ri)"
         "hit_partIndex (getHitRegion deleting_points (Point 11 59)) = int pj"
         "length ps \<le> 3 \<longrightarrow> onMouseDown (Point 11 59) deleting_points = Inr deleting_points"
      by blast
    from p(4,5) have "regions deleting_points ! ri =
        Region 2 [Rect 200 150 300 200, Poly [Point 10 10, Point 60 10, Point 10 60]]" "pj = 1"
      by (simp_all add: deleting_points_hits mk_hit_def)
    with p(2) have "length ps \<le> 3" by auto
    with p(6) show ?thesis by simp
  qed
  have removed: "onMouseDown (Point 701 501) deleting_points =
     Inr (deleting_points
           \<lparr>regions := [Region 1 [Rect 100 100 200 200],
                        Region 2 [Rect 200 150 300 200, Poly [Point 10 10, Point 60 10, Point 10 60]],
                        Region 3 [Rect 150 120 400 300],
                        Region 4 [Poly [Point 600 500, Point 700 580, Point 600 580]]]\<rparr>)"
    using b
    by (simp add: onMouseDown_def deleting_points_hits deleting_points_simps mk_hit_def is_poly_def
        deletePoint_updater_def nth_js_def splice_remove_js_def splice_remove_def Let_def)
  from h v kept removed show ?thesis by simp
qed

subsection \<open>Image bounds\<close>

lemma zoomed_out_simps:
  "regions zoomed_out = [Region 1 [Rect 0 0 20 20], Region 2 [Rect 780 200 20 200]]"
  "originalImage zoomed_out = Some \<lparr>naturalWidth = 800, naturalHeight = 600\<rparr>"
  "viewTransform zoomed_out = \<lparr>zoom = 3602879701896397 / 36028797018963968, offset = Point 0 0\<rparr>"
  "\<not> isSelectMode zoomed_out" "\<not> isWaitingForPointClick zoomed_out"
  "\<not> isDeletePointMode zoomed_out" "\<not> isDeleteRegionMode zoomed_out"
  "multiSelectRegions zoomed_out = {||}"
  by (simp_all add: zoomed_out_def imageLoaded_def initial_editor_def)

text \<open>The double \<open>12 / 0.1\<close> is \<open>120\<close>.\<close>

lemma zoomed_out_threshold:
  "fdiv 12 (3602879701896397 / 36028797018963968) = 120"
  unfolding fdiv_def by (subst fl_eval[where e = 6]) (simp_all add: rne_def)

text \<open>
  \<^bold>\<open>C7.\<close> A resize can push a rectangle that lies inside the image out of it: the
  minimum size is enforced after the pointer is clamped. At zoom 0.1 the minimum size is 120. Both
  rectangles of \<open>zoomed_out\<close> lie inside the 800 by 600 image. A press at \<open>(10, 10)\<close>
  takes the north-west handle of the first, and a move sample at the same position makes
  it \<open>(-100, -100, 120, 120)\<close>. A press at \<open>(800, 300)\<close> takes the east handle of the
  second, and a move sample at the same position makes it \<open>(780, 200, 120, 200)\<close>, whose
  right edge is at 900. Neither result lies inside the image.
\<close>

theorem resize_leaves_image:
  "region_inside 800 600 (Region 1 [Rect 0 0 20 20]) \<and>
   region_inside 800 600 (Region 2 [Rect 780 200 20 200]) \<and>
   hit_mode (getHitRegion zoomed_out (Point 10 10)) = Some Handle_nw \<and>
   map_sum id regions (and_then (onMouseDown (Point 10 10) zoomed_out) (onMouseMove (Point 10 10))) =
     Inr [Region 2 [Rect 780 200 20 200], Region 1 [Rect (- 100) (- 100) 120 120]] \<and>
   \<not> region_inside 800 600 (Region 1 [Rect (- 100) (- 100) 120 120]) \<and>
   hit_mode (getHitRegion zoomed_out (Point 800 300)) = Some Handle_e \<and>
   map_sum id regions (and_then (onMouseDown (Point 800 300) zoomed_out) (onMouseMove (Point 800 300))) =
     Inr [Region 1 [Rect 0 0 20 20], Region 2 [Rect 780 200 120 200]] \<and>
   \<not> region_inside 800 600 (Region 2 [Rect 780 200 120 200])"
  by (simp add: region_inside_def point_inside_def zoomed_out_simps and_then_def onMouseDown_def
      onMouseMove_def drag_updater_def getHitRegion_def hit_in_region_def normal_mode_def
      threshold_def HANDLE_SIZE_def zoomed_out_threshold fadd_def fsub_def fl_numeral
      hit_handles_def mk_hit_def nth_js_def resize_rect_def resize_switch_def clampX_def
      clampY_def Let_def)

subsection \<open>Rasterizing\<close>

lemma Min_insert_min:
  "finite X \<Longrightarrow> Min (insert (min (a::real) p) X) = Min (insert a (insert p X))"
  by (cases "X = {}") (simp_all add: min.assoc)

lemma Max_insert_max:
  "finite X \<Longrightarrow> Max (insert (max (a::real) p) X) = Max (insert a (insert p X))"
  by (cases "X = {}") (simp_all add: max.assoc)

lemma pts_bbox_Some:
  "pts_bbox cs (Some (a, b, c, d)) =
     Some (Min (insert a (pt_x ` set cs)), Min (insert b (pt_y ` set cs)),
           Max (insert c (pt_x ` set cs)), Max (insert d (pt_y ` set cs)))"
proof (induction cs arbitrary: a b c d)
  case Nil
  then show ?case by (simp add: pts_bbox_def)
next
  case (Cons p cs)
  have "pts_bbox (p # cs) (Some (a, b, c, d)) =
      pts_bbox cs (Some (min a (pt_x p), min b (pt_y p), max c (pt_x p), max d (pt_y p)))"
    by (simp add: pts_bbox_def)
  then show ?case
    by (simp add: Cons.IH Min_insert_min Max_insert_max)
qed

lemma pts_bbox_None:
  "pts_bbox cs None =
     (if cs = [] then None
      else Some (Min (pt_x ` set cs), Min (pt_y ` set cs), Max (pt_x ` set cs), Max (pt_y ` set cs)))"
proof (cases cs)
  case Nil
  then show ?thesis by (simp add: pts_bbox_def)
next
  case (Cons p ps)
  have "pts_bbox (p # ps) None = pts_bbox ps (Some (pt_x p, pt_y p, pt_x p, pt_y p))"
    by (simp add: pts_bbox_def)
  with Cons show ?thesis by (simp add: pts_bbox_Some)
qed

lemma pts_bbox_append: "pts_bbox (xs @ ys) b = pts_bbox ys (pts_bbox xs b)"
  by (simp add: pts_bbox_def)

lemma part_bbox_coords: "drawable p \<Longrightarrow> part_bbox p b = pts_bbox (part_coords p) b"
proof (cases p)
  case (Rect x y w h)
  assume "drawable p"
  with Rect have "fl x = x" "fl y = y" "0 \<le> w" "0 \<le> h" by simp_all
  with fl_mono[of x "x + w"] fl_mono[of y "y + h"] have "x \<le> fadd x w" "y \<le> fadd y h"
    by (simp_all add: fadd_def)
  then show ?thesis using Rect
    by (cases b) (auto simp: pts_bbox_def min_def max_def)
next
  case (Poly pts)
  then show ?thesis by (simp add: pts_bbox_def)
qed

lemma fold_part_bbox:
  "list_all drawable ps \<Longrightarrow> fold part_bbox ps b = pts_bbox (concat (map part_coords ps)) b"
  by (induction ps arbitrary: b) (simp_all add: pts_bbox_append part_bbox_coords, simp add: pts_bbox_def)

lemma region_bbox_coords:
  assumes "list_all drawable (parts r)"
  shows "region_bbox r =
     (if region_coords r = [] then None
      else Some (Min (pt_x ` set (region_coords r)), Min (pt_y ` set (region_coords r)),
                 Max (pt_x ` set (region_coords r)), Max (pt_y ` set (region_coords r))))"
  using fold_part_bbox[OF assms, of None]
  by (simp add: region_bbox_def region_coords_def pts_bbox_None)

lemma poly_empty_not_drawable: "list_all drawable ps \<Longrightarrow> Poly [] \<notin> set ps"
  by (auto simp: list_all_iff)

lemma process_region_eq:
  assumes "list_all drawable (parts r)" and "\<forall>w h. ctx2d w h"
  shows "\<exists>box. process_region ctx2d now base index r =
     Inr (if degenerate r then None
          else Some \<lparr>img_id = now + index, img_name = artifact_name base index, img_box = box\<rparr>)"
  using assms(2) poly_empty_not_drawable[OF assms(1)]
  by (auto simp: process_region_def region_bbox_coords[OF assms(1)] degenerate_def Let_def)

lemma process_loop_eq:
  assumes "\<forall>r \<in> set rs. list_all drawable (parts r)" and "\<forall>w h. ctx2d w h"
  shows "\<exists>new. process_loop ctx2d now base index rs acc = Inr (acc @ new) \<and>
     map img_name new =
       map (\<lambda>(i, r). artifact_name base i) (filter (\<lambda>(i, r). \<not> degenerate r) (enumerate index rs))"
  using assms(1)
proof (induction rs arbitrary: index acc)
  case Nil
  then show ?case by simp
next
  case (Cons r rs)
  from Cons.prems have d: "list_all drawable (parts r)" and rest: "\<forall>r \<in> set rs. list_all drawable (parts r)"
    by simp_all
  from process_region_eq[OF d assms(2), of "now index" base index] obtain box where
    pr: "process_region ctx2d (now index) base index r =
     Inr (if degenerate r then None
          else Some \<lparr>img_id = now index + index, img_name = artifact_name base index, img_box = box\<rparr>)"
    by blast
  show ?case
  proof (cases "degenerate r")
    case True
    from Cons.IH[OF rest, of "Suc index" acc] True pr show ?thesis by simp
  next
    case False
    let ?a = "\<lparr>img_id = now index + index, img_name = artifact_name base index, img_box = box\<rparr>"
    from Cons.IH[OF rest, of "Suc index" "acc @ [?a]"] obtain new where
      n: "process_loop ctx2d now base (Suc index) rs (acc @ [?a]) = Inr ((acc @ [?a]) @ new)"
      "map img_name new = map (\<lambda>(i, r). artifact_name base i)
          (filter (\<lambda>(i, r). \<not> degenerate r) (enumerate (Suc index) rs))"
      by blast
    from n False pr show ?thesis by (intro exI[of _ "?a # new"]) simp
  qed
qed

text \<open>
  \<^bold>\<open>C9.\<close> A run of \<^verbatim>\<open>processRegions\<close> from its button, which is enabled when an image
  is loaded and the collection is not empty. The parts are as the data model has them
  (a rectangle of non-negative width and height at a position given in doubles, a
  polygon with a point), and \<^verbatim>\<open>getContext('2d')\<close> gives a context for every canvas. Whatever the processed-image
  list held before, it becomes a list \<open>results\<close> that depends on the regions only, and
  the names of \<open>results\<close> are: for each region, in the order of the collection, that is
  not degenerate, the base name, \<^verbatim>\<open>_region_\<close>, the 1-based index of the region and
  \<^verbatim>\<open>.png\<close>. A degenerate region has no artifact.
\<close>

theorem processRegions_artifacts:
  assumes "\<not> isProcessDisabled s"
    and "\<forall>w h. ctx2d w h"
    and "\<forall>r \<in> set (regions s). list_all drawable (parts r)"
  shows "\<exists>results.
     (\<forall>old. processRegions ctx2d now (s\<lparr>processedImages := old\<rparr>) =
              Inr (s\<lparr>processedImages := results\<rparr>)) \<and>
     map img_name results = artifact_names (baseName s) (regions s)"
proof -
  from process_loop_eq[OF assms(3,2), of now "baseName s" 0 "[]"] obtain new where
    n: "process_loop ctx2d now (baseName s) 0 (regions s) [] = Inr new"
    "map img_name new = map (\<lambda>(i, r). artifact_name (baseName s) i)
        (filter (\<lambda>(i, r). \<not> degenerate r) (enumerate 0 (regions s)))"
    by auto
  have "\<forall>old. processRegions ctx2d now (s\<lparr>processedImages := old\<rparr>) = Inr (s\<lparr>processedImages := new\<rparr>)"
    using assms(1) n(1)
    by (auto simp: processRegions_def baseName_def isProcessDisabled_def isActionDisabled_def)
  moreover have "map img_name new = artifact_names (baseName s) (regions s)"
    using n(2) by (simp add: artifact_names_def artifact_name_def)
  ultimately show ?thesis by blast
qed

lemma with_flat_region_simps:
  "regions with_flat_region =
     [Region 1 [Rect 100 100 200 200], Region 2 [Rect 5 5 0 10],
      Region 3 [Poly [Point 10 10, Point 60 10, Point 10 60], Rect 20 20 100 30]]"
  "originalImage with_flat_region = Some \<lparr>naturalWidth = 800, naturalHeight = 600\<rparr>"
  "originalFileName with_flat_region = Some ''photo''"
  "processedImages with_flat_region =
     [\<lparr>img_id = 5, img_name = ''photo_region_1.png'', img_box = (325, 225, 150, 150)\<rparr>]"
  by (simp_all add: with_flat_region_def imageLoaded_def initial_editor_def)

lemma with_flat_region_names:
  "artifact_names (baseName with_flat_region) (regions with_flat_region) =
     [''photo_region_1.png'', ''photo_region_3.png'']"
  by (simp add: with_flat_region_simps artifact_names_def enumerate_eq_zip upt_rec baseName_def
      degenerate_def region_coords_def digit_char_def fl_ops)

theorem processRegions_artifacts_witness:
  "\<not> isProcessDisabled with_flat_region \<and>
   list_all (\<lambda>r. list_all drawable (parts r)) (regions with_flat_region) \<and>
   processRegions (\<lambda>w h. True) (\<lambda>i. 40) with_flat_region =
     Inr (with_flat_region
           \<lparr>processedImages :=
              [\<lparr>img_id = 40, img_name = ''photo_region_1.png'', img_box = (100, 100, 200, 200)\<rparr>,
               \<lparr>img_id = 42, img_name = ''photo_region_3.png'', img_box = (10, 10, 110, 50)\<rparr>]\<rparr>)"
proof -
  have h: "\<not> isProcessDisabled with_flat_region"
    "\<forall>w h. (\<lambda>w h. True) w h"
    "\<forall>r \<in> set (regions with_flat_region). list_all drawable (parts r)"
    by (simp_all add: with_flat_region_simps isProcessDisabled_def isActionDisabled_def fl_ops)
  from processRegions_artifacts[OF h, of "\<lambda>i. 40"] obtain results where
    r: "\<forall>old. processRegions (\<lambda>w h. True) (\<lambda>i. 40) (with_flat_region\<lparr>processedImages := old\<rparr>) =
              Inr (with_flat_region\<lparr>processedImages := results\<rparr>)"
    "map img_name results = [''photo_region_1.png'', ''photo_region_3.png'']"
    by (auto simp: with_flat_region_names)
  have e: "processRegions (\<lambda>w h. True) (\<lambda>i. 40) with_flat_region =
     Inr (with_flat_region
           \<lparr>processedImages :=
              [\<lparr>img_id = 40, img_name = ''photo_region_1.png'', img_box = (100, 100, 200, 200)\<rparr>,
               \<lparr>img_id = 42, img_name = ''photo_region_3.png'', img_box = (10, 10, 110, 50)\<rparr>]\<rparr>)"
    by (simp add: processRegions_def with_flat_region_simps process_region_def region_bbox_def
        baseName_def artifact_name_def digit_char_def fl_ops)
  from h(1,3) e r show ?thesis by (simp add: list_all_iff)
qed

section \<open>Further properties\<close>

text \<open>Properties of the same handlers beyond the ones above: what a body drag does at
  the edge of the image, what keeps geometry inside the image, which modes a switch
  leaves active, the add-point click from the search for the closest edge to the
  inserted vertex, and the size of polygons over a whole session.\<close>

lemma dragging_at_edge_simps:
  "regions dragging_at_edge = [Region 1 [Rect 325 225 (1358507700096569 / 17592186044416) 150]]"
  "draggingState dragging_at_edge =
     \<lparr>isDragging = True,
      selectedRegion = Some (Region 1 [Rect 325 225 (1358507700096569 / 17592186044416) 150]),
      selectedPartIndex = 0, selectedVertexIndex = - 1, dragMode = Some Body,
      mouseOffset = Point (3215460671451591 / 8796093022208) 300\<rparr>"
  "originalImage dragging_at_edge = Some \<lparr>naturalWidth = 800, naturalHeight = 600\<rparr>"
  by (simp_all add: dragging_at_edge_def imageLoaded_def initial_editor_def)

text \<open>The operations of the sample below on their doubles: the delta
  \<open>763.3333333333334 - 365.55555555555554\<close> is \<open>397.7777777777778\<close>; the new left edge
  \<open>325 + 397.7777777777778\<close> is \<open>722.7777777777778\<close>; the right edge
  \<open>325 + 77.22222222222223\<close> is \<open>402.22222222222223\<close>, and with the delta added it is
  \<open>800\<close>, the exact sum being \<open>2 powi (- 44)\<close> above.\<close>

lemma dragging_at_edge_doubles:
  "fsub (6714351006952107 / 8796093022208) (3215460671451591 / 8796093022208) =
     874722583875129 / 2199023255552"
  "fadd 325 (874722583875129 / 2199023255552) = 1589405141929529 / 2199023255552"
  "fadd 325 (1358507700096569 / 17592186044416) = 7075968164531769 / 17592186044416"
  "fadd (7075968164531769 / 17592186044416) (874722583875129 / 2199023255552) = 800"
proof -
  show "fsub (6714351006952107 / 8796093022208) (3215460671451591 / 8796093022208) =
      874722583875129 / 2199023255552"
    unfolding fsub_def by (subst fl_eval[where e = 8]) (simp_all add: rne_def)
  show "fadd 325 (874722583875129 / 2199023255552) = 1589405141929529 / 2199023255552"
    unfolding fadd_def by (subst fl_eval[where e = 9]) (simp_all add: rne_def)
  show "fadd 325 (1358507700096569 / 17592186044416) = 7075968164531769 / 17592186044416"
    unfolding fadd_def by (subst fl_eval[where e = 8]) (simp_all add: rne_def)
  show "fadd (7075968164531769 / 17592186044416) (874722583875129 / 2199023255552) = 800"
    unfolding fadd_def by (subst fl_eval[where e = 9]) (simp_all add: rne_def)
qed

text \<open>
  \<^bold>\<open>X1.\<close> The bounds test of a body drag is made on doubles, and a sample it accepts can
  leave a rectangle over the edge of the image. In \<open>dragging_at_edge\<close> the rectangle
  \<open>(325, 225, 77.22222222222223, 150)\<close> lies inside the 800 by 600 image. A sample at
  \<open>(763.3333333333334, 300)\<close> moves it by \<open>397.7777777777778\<close>: the test compares the
  double \<open>(x + w) + dx = 800\<close> with the width 800 and lets the move pass. The rectangle
  becomes \<open>(722.7777777777778, 225, 77.22222222222223, 150)\<close>, whose right edge is
  \<open>2 powi (- 44)\<close> beyond 800.
\<close>

theorem body_drag_rounds_over_the_edge:
  "region_inside 800 600 (Region 1 [Rect 325 225 (1358507700096569 / 17592186044416) 150]) \<and>
   onMouseMove (Point (6714351006952107 / 8796093022208) 300) dragging_at_edge =
     Inr (dragging_at_edge
           \<lparr>regions := [Region 1 [Rect (1589405141929529 / 2199023255552) 225
                                     (1358507700096569 / 17592186044416) 150]],
            draggingState := (draggingState dragging_at_edge)
              \<lparr>mouseOffset := Point (6714351006952107 / 8796093022208) 300\<rparr>\<rparr>) \<and>
   \<not> region_inside 800 600
       (Region 1 [Rect (1589405141929529 / 2199023255552) 225 (1358507700096569 / 17592186044416) 150]) \<and>
   1589405141929529 / 2199023255552 + 1358507700096569 / 17592186044416 = (800 + 2 powi (- 44) :: real)"
proof -
  have dy: "fsub 300 300 = 0" "fadd 225 0 = 225" "fadd 225 150 = 375" "fadd 375 0 = 375"
    by (simp_all add: fl_ops)
  have "onMouseMove (Point (6714351006952107 / 8796093022208) 300) dragging_at_edge =
     Inr (dragging_at_edge
           \<lparr>regions := [Region 1 [Rect (1589405141929529 / 2199023255552) 225
                                     (1358507700096569 / 17592186044416) 150]],
            draggingState := (draggingState dragging_at_edge)
              \<lparr>mouseOffset := Point (6714351006952107 / 8796093022208) 300\<rparr>\<rparr>)"
    by (simp add: onMouseMove_def drag_updater_def dragging_at_edge_simps exits_def Let_def
        dragging_at_edge_doubles dy)
  then show ?thesis
    by (simp add: region_inside_def point_inside_def)
qed

lemma clamp_inside:
  "point_inside (real (naturalWidth img)) (real (naturalHeight img))
     (Point (clampX (Some img) a) (clampY (Some img) b))"
  by (simp add: point_inside_def clampX_def clampY_def)

text \<open>
  \<^bold>\<open>X2.\<close> A vertex drag keeps the collection inside the image: the dragged vertex
  becomes the pointer position clamped into the image, nothing else changes, and when
  every region lay inside the image before the sample, every region does after it.
\<close>

theorem vertex_drag_stays_inside:
  assumes "isDragging (draggingState s)" and "dragMode (draggingState s) = Some Vertex"
    and "selectedRegion (draggingState s) = Some sel"
    and "findIndex (\<lambda>r. region_id r = region_id sel) (regions s) = Some ri"
    and "originalImage s = Some img"
    and "nth_js (parts (regions s ! ri)) (selectedPartIndex (draggingState s)) = Some (Poly pts)"
    and "0 \<le> selectedVertexIndex (draggingState s)"
    and "selectedVertexIndex (draggingState s) < int (length pts)"
    and "list_all (region_inside (real (naturalWidth img)) (real (naturalHeight img))) (regions s)"
  shows "onMouseMove pos s =
       Inr (s\<lparr>regions := (regions s)[ri := Region (region_id (regions s ! ri))
              ((parts (regions s ! ri))[nat (selectedPartIndex (draggingState s)) :=
                 Poly (pts[nat (selectedVertexIndex (draggingState s)) :=
                        Point (clampX (Some img) (pt_x pos)) (clampY (Some img) (pt_y pos))])])]\<rparr>) \<and>
     list_all (region_inside (real (naturalWidth img)) (real (naturalHeight img)))
       ((regions s)[ri := Region (region_id (regions s ! ri))
              ((parts (regions s ! ri))[nat (selectedPartIndex (draggingState s)) :=
                 Poly (pts[nat (selectedVertexIndex (draggingState s)) :=
                        Point (clampX (Some img) (pt_x pos)) (clampY (Some img) (pt_y pos))])])])"
proof -
  let ?iw = "real (naturalWidth img)" and ?ih = "real (naturalHeight img)"
  let ?r = "regions s ! ri"
  let ?pj = "nat (selectedPartIndex (draggingState s))"
  let ?vi = "nat (selectedVertexIndex (draggingState s))"
  let ?pt = "Point (clampX (Some img) (pt_x pos)) (clampY (Some img) (pt_y pos))"
  have ri: "ri < length (regions s)" using findIndex_Some[OF assms(4)] by simp
  have pj: "?pj < length (parts ?r)" "parts ?r ! ?pj = Poly pts"
    using nth_js_Some[OF assms(6)] by simp_all
  have vi: "nth_js pts (selectedVertexIndex (draggingState s)) = Some (pts ! ?vi)"
    using assms(7,8) by (simp add: nth_js_def)
  have m: "onMouseMove pos s =
       Inr (s\<lparr>regions := (regions s)[ri := Region (region_id ?r) ((parts ?r)[?pj := Poly (pts[?vi := ?pt])])]\<rparr>)"
    using assms(1-8) vi by (simp add: onMouseMove_def drag_updater_def Let_def)
  have rin: "region_inside ?iw ?ih ?r" using assms(9) ri by (simp add: list_all_length)
  then have "list_all (point_inside ?iw ?ih) pts"
    using pj by (auto simp: region_inside_def list_all_length)
  then have "list_all (point_inside ?iw ?ih) (pts[?vi := ?pt])"
    using clamp_inside[of img "pt_x pos" "pt_y pos"]
    by (auto simp: list_all_iff dest!: set_update_subset_insert[THEN subsetD])
  then have "part_inside ?iw ?ih (Poly (pts[?vi := ?pt]))" by simp
  with rin have "region_inside ?iw ?ih (Region (region_id ?r) ((parts ?r)[?pj := Poly (pts[?vi := ?pt])]))"
    by (auto simp: region_inside_def list_all_iff dest!: set_update_subset_insert[THEN subsetD])
  with assms(9) have "list_all (region_inside ?iw ?ih)
      ((regions s)[ri := Region (region_id ?r) ((parts ?r)[?pj := Poly (pts[?vi := ?pt])])])"
    by (auto simp: list_all_iff dest!: set_update_subset_insert[THEN subsetD])
  with m show ?thesis by simp
qed

text \<open>
  \<^bold>\<open>X3.\<close> \<^verbatim>\<open>addRegion\<close> appends one region with a single square whose side is a quarter
  of the shorter image dimension, centred on the centre of the image, and the region
  lies inside the image.
\<close>

theorem addRegion_inside:
  assumes "originalImage s = Some img"
  shows "\<exists>x y side. regions (addRegion now s) = regions s @ [Region now [Rect x y side side]] \<and>
     side = min (real (naturalWidth img)) (real (naturalHeight img)) / 4 \<and>
     x + side / 2 = real (naturalWidth img) / 2 \<and> y + side / 2 = real (naturalHeight img) / 2 \<and>
     region_inside (real (naturalWidth img)) (real (naturalHeight img)) (Region now [Rect x y side side])"
proof -
  define side where "side = min (real (naturalWidth img)) (real (naturalHeight img)) / 4"
  define x where "x = real (naturalWidth img) / 2 - side / 2"
  define y where "y = real (naturalHeight img) / 2 - side / 2"
  have r: "regions (addRegion now s) = regions s @ [Region now [Rect x y side side]]"
    using assms by (simp add: addRegion_def Let_def side_def x_def y_def)
  have b: "0 \<le> side" "side \<le> real (naturalWidth img)" "side \<le> real (naturalHeight img)"
    by (simp_all add: side_def min_def)
  have "region_inside (real (naturalWidth img)) (real (naturalHeight img)) (Region now [Rect x y side side])"
    using b by (simp add: region_inside_def point_inside_def x_def y_def)
  with r show ?thesis
    by (intro exI[of _ x] exI[of _ y] exI[of _ side]) (simp add: side_def x_def y_def)
qed

theorem addRegion_inside_witness:
  "originalImage three_regions = Some \<lparr>naturalWidth = 800, naturalHeight = 600\<rparr> \<and>
   regions (addRegion 9 three_regions) = regions three_regions @ [Region 9 [Rect 325 225 150 150]] \<and>
   region_inside 800 600 (Region 9 [Rect 325 225 150 150])"
  using addRegion_inside[of three_regions "\<lparr>naturalWidth = 800, naturalHeight = 600\<rparr>" 9]
  by (auto simp: three_regions_simps)

lemma dragging_vertex_reached:
  "onMouseDown (Point 10 60) three_regions = Inr dragging_vertex"
  by (simp add: onMouseDown_def three_regions_simps dragging_vertex_def getHitRegion_def
      hit_in_region_def normal_mode_def threshold_def HANDLE_SIZE_def fl_ops hit_handles_def
      hypot_less_iff mk_hit_def body_cursor_def pointInPolygon_def intersect_def upt_rec Let_def)

lemma dragging_vertex_simps:
  "regions dragging_vertex =
     [Region 1 [Rect 100 100 200 200], Region 3 [Rect 150 120 400 300],
      Region 2 [Rect 200 150 300 200, Poly [Point 10 10, Point 60 10, Point 10 60]]]"
  "draggingState dragging_vertex =
     \<lparr>isDragging = True,
      selectedRegion = Some (Region 2 [Rect 200 150 300 200, Poly [Point 10 10, Point 60 10, Point 10 60]]),
      selectedPartIndex = 1, selectedVertexIndex = 2, dragMode = Some Vertex,
      mouseOffset = Point 10 60\<rparr>"
  "originalImage dragging_vertex = Some \<lparr>naturalWidth = 800, naturalHeight = 600\<rparr>"
  by (simp_all add: dragging_vertex_def three_regions_simps)

theorem vertex_drag_stays_inside_witness:
  "isDragging (draggingState dragging_vertex) \<and>
   dragMode (draggingState dragging_vertex) = Some Vertex \<and>
   list_all (region_inside 800 600) (regions dragging_vertex) \<and>
   onMouseMove (Point (- 20) 700) dragging_vertex =
     Inr (dragging_vertex
           \<lparr>regions := [Region 1 [Rect 100 100 200 200], Region 3 [Rect 150 120 400 300],
                        Region 2 [Rect 200 150 300 200, Poly [Point 10 10, Point 60 10, Point 0 600]]]\<rparr>) \<and>
   list_all (region_inside 800 600)
     [Region 1 [Rect 100 100 200 200], Region 3 [Rect 150 120 400 300],
      Region 2 [Rect 200 150 300 200, Poly [Point 10 10, Point 60 10, Point 0 600]]]"
proof -
  let ?r2 = "Region 2 [Rect 200 150 300 200, Poly [Point 10 10, Point 60 10, Point 10 60]]"
  let ?img = "\<lparr>naturalWidth = 800, naturalHeight = 600\<rparr>"
  have h: "isDragging (draggingState dragging_vertex)"
    "dragMode (draggingState dragging_vertex) = Some Vertex"
    "selectedRegion (draggingState dragging_vertex) = Some ?r2"
    "findIndex (\<lambda>r. region_id r = region_id ?r2) (regions dragging_vertex) = Some 2"
    "originalImage dragging_vertex = Some ?img"
    "nth_js (parts (regions dragging_vertex ! 2)) (selectedPartIndex (draggingState dragging_vertex)) =
       Some (Poly [Point 10 10, Point 60 10, Point 10 60])"
    "0 \<le> selectedVertexIndex (draggingState dragging_vertex)"
    "selectedVertexIndex (draggingState dragging_vertex) < int (length [Point 10 10, Point 60 10, Point 10 60])"
    "list_all (region_inside (real (naturalWidth ?img)) (real (naturalHeight ?img))) (regions dragging_vertex)"
    by (simp_all add: dragging_vertex_simps nth_js_def region_inside_def point_inside_def)
  from vertex_drag_stays_inside[OF h, of "Point (- 20) 700"] h(1,2,9)
  show ?thesis
    by (simp add: dragging_vertex_simps clampX_def clampY_def)
qed

text \<open>
  \<^bold>\<open>X4.\<close> Turning on any of the four modal modes leaves that mode as the only active
  one, whatever the flags were before; \<^verbatim>\<open>toggleSelectMode\<close> and \<^verbatim>\<open>startAddPointMode\<close>
  also empty the multi-select set.
\<close>

theorem entering_a_mode_leaves_the_others:
  "(\<not> isSelectMode s \<longrightarrow>
      isSelectMode (toggleSelectMode s) \<and> active_modes (toggleSelectMode s) = 1) \<and>
   (\<not> isWaitingForPointClick s \<longrightarrow>
      isWaitingForPointClick (startAddPointMode s) \<and> active_modes (startAddPointMode s) = 1) \<and>
   (\<not> isDeletePointMode s \<longrightarrow>
      isDeletePointMode (toggleDeletePointMode s) \<and> active_modes (toggleDeletePointMode s) = 1) \<and>
   (\<not> isDeleteRegionMode s \<longrightarrow>
      isDeleteRegionMode (toggleDeleteRegionMode s) \<and> active_modes (toggleDeleteRegionMode s) = 1) \<and>
   (\<not> isSelectMode s \<longrightarrow> multiSelectRegions (toggleSelectMode s) = {||}) \<and>
   (\<not> isWaitingForPointClick s \<longrightarrow> multiSelectRegions (startAddPointMode s) = {||})"
  using toggleSelectMode_on[of s] startAddPointMode_on[of s] toggleDeletePointMode_on[of s]
    toggleDeleteRegionMode_on[of s]
  by (auto simp: active_modes_def)

theorem entering_a_mode_leaves_the_others_witness:
  "\<not> isWaitingForPointClick selecting_two \<and> \<not> isDeletePointMode selecting_two \<and>
   \<not> isDeleteRegionMode selecting_two \<and> \<not> isSelectMode three_regions \<and>
   active_modes (toggleSelectMode three_regions) = 1 \<and>
   active_modes (startAddPointMode selecting_two) = 1 \<and>
   active_modes (toggleDeletePointMode selecting_two) = 1 \<and>
   active_modes (toggleDeleteRegionMode selecting_two) = 1 \<and>
   multiSelectRegions (startAddPointMode selecting_two) = {||}"
proof -
  have h: "\<not> isWaitingForPointClick selecting_two" "\<not> isDeletePointMode selecting_two"
    "\<not> isDeleteRegionMode selecting_two" "\<not> isSelectMode three_regions"
    by (simp_all add: selecting_two_def three_regions_simps)
  from entering_a_mode_leaves_the_others[of selecting_two]
    entering_a_mode_leaves_the_others[of three_regions] h
  show ?thesis by simp
qed

lemma segments_index: "(p1, p2, i) \<in> set (segments p) \<Longrightarrow> i < length (segments p)"
  by (cases p) (auto simp: Let_def)

lemma closest_step_ok:
  assumes "closest_ok rs acc" and "r \<in> set rs" and "pj < length (parts r)"
    and "seg \<in> set (segments (parts r ! pj))"
  shows "closest_ok rs (closest_step pos r pj seg acc)"
proof -
  obtain p1 p2 i where seg: "seg = (p1, p2, i)" by (cases seg) auto
  with assms(4) have "i < length (segments (parts r ! pj))" by (auto dest: segments_index)
  with assms(1,2,3) seg show ?thesis
    by (auto simp: closest_step_def closest_ok_def split: prod.splits option.splits)
qed

lemma closest_segs_ok:
  assumes "r \<in> set rs" and "pj < length (parts r)"
  shows "closest_ok rs acc \<Longrightarrow> set segs \<subseteq> set (segments (parts r ! pj)) \<Longrightarrow>
     closest_ok rs (fold (closest_step pos r pj) segs acc)"
proof (induction segs arbitrary: acc)
  case Nil
  then show ?case by simp
next
  case (Cons seg segs)
  from Cons.prems have "closest_ok rs (closest_step pos r pj seg acc)"
    by (intro closest_step_ok[OF _ assms]) auto
  with Cons show ?case by simp
qed

lemma closest_parts_ok:
  assumes "r \<in> set rs"
  shows "closest_ok rs acc \<Longrightarrow> set xs \<subseteq> set (enumerate 0 (parts r)) \<Longrightarrow>
     closest_ok rs (fold (\<lambda>(partIdx, part) a. fold (closest_step pos r partIdx) (segments part) a) xs acc)"
proof (induction xs arbitrary: acc)
  case Nil
  then show ?case by simp
next
  case (Cons x xs)
  obtain j p where x: "x = (j, p)" by (cases x) auto
  with Cons.prems(2) have jp: "j < length (parts r)" "p = parts r ! j"
    by (auto simp: in_set_enumerate_eq)
  have "closest_ok rs (fold (closest_step pos r j) (segments p) acc)"
    using closest_segs_ok[OF assms jp(1) Cons.prems(1), of "segments p" pos] jp(2) by simp
  with Cons x show ?case by simp
qed

lemma closest_region_ok:
  "closest_ok rs acc \<Longrightarrow> r \<in> set rs \<Longrightarrow> closest_ok rs (closest_region pos r acc)"
  unfolding closest_region_def by (rule closest_parts_ok) auto

lemma closest_regions_ok:
  "closest_ok rs acc \<Longrightarrow> set xs \<subseteq> set rs \<Longrightarrow> closest_ok rs (fold (closest_region pos) xs acc)"
  by (induction xs arbitrary: acc) (auto intro: closest_region_ok)

lemma findClosestEdgePoint_Some:
  assumes "findClosestEdgePoint s pos rs = Some (r, pj, i, pt)"
  shows "r \<in> set rs \<and> pj < length (parts r) \<and> i < length (segments (parts r ! pj))"
proof -
  have "closest_ok rs (fold (closest_region pos) rs None)"
    by (rule closest_regions_ok) (simp_all add: closest_ok_def)
  with assms show ?thesis
    by (auto simp: findClosestEdgePoint_def closest_ok_def split: option.splits if_splits)
qed

lemma length_segments: "length (segments p) = (case p of Rect x y w h \<Rightarrow> 4 | Poly ps \<Rightarrow> length ps)"
  by (cases p) (simp_all add: Let_def)

text \<open>
  \<^bold>\<open>X5.\<close> The add-point click on a collection with distinct ids never raises. When
  \<^verbatim>\<open>findClosestEdgePoint\<close> finds nothing within the threshold the state is returned as
  it is. When it finds region \<open>r\<close>, part \<open>pj\<close>, segment \<open>i\<close> and point \<open>pt\<close>, the region
  is in the collection, \<open>pj\<close> is a part index of it, \<open>i\<close> is below 4 for a rectangle and
  below the number of points for a polygon, and the click replaces that part by
  \<open>insertVertex\<close> of it and changes nothing else.
\<close>

theorem addPointToPolygon_click:
  assumes "distinct (map region_id (regions s))"
  shows "(findClosestEdgePoint s pos (regions s) = None \<longrightarrow> addPointToPolygon pos s = Inr s) \<and>
     (\<forall>r pj i pt. findClosestEdgePoint s pos (regions s) = Some (r, pj, i, pt) \<longrightarrow>
        (\<exists>ri. ri < length (regions s) \<and> regions s ! ri = r \<and> pj < length (parts r) \<and>
           (case parts r ! pj of Rect x y w h \<Rightarrow> i < 4 | Poly ps \<Rightarrow> i < length ps) \<and>
           addPointToPolygon pos s =
             Inr (s\<lparr>regions := (regions s)[ri := Region (region_id r)
                    ((parts r)[pj := insertVertex (parts r ! pj) i pt])]\<rparr>)))"
proof (intro conjI allI impI)
  assume "findClosestEdgePoint s pos (regions s) = None"
  then show "addPointToPolygon pos s = Inr s" by (simp add: addPointToPolygon_def)
next
  fix r pj i pt
  assume f: "findClosestEdgePoint s pos (regions s) = Some (r, pj, i, pt)"
  from findClosestEdgePoint_Some[OF f] have
    a: "r \<in> set (regions s)" "pj < length (parts r)" "i < length (segments (parts r ! pj))"
    by simp_all
  from a(1) obtain ri where ri: "ri < length (regions s)" "regions s ! ri = r"
    by (auto simp: in_set_conv_nth)
  have fi: "findIndex (\<lambda>q. region_id q = region_id r) (regions s) = Some ri"
    using findIndex_distinct[OF assms ri(1)] ri(2) by simp
  have "addPointToPolygon pos s =
      Inr (s\<lparr>regions := (regions s)[ri := Region (region_id r)
             ((parts r)[pj := insertVertex (parts r ! pj) i pt])]\<rparr>)"
    using f fi ri(2) a(2)
    by (simp add: addPointToPolygon_def addPoint_updater_def nth_js_nat Let_def)
  moreover have "case parts r ! pj of Rect x y w h \<Rightarrow> i < 4 | Poly ps \<Rightarrow> i < length ps"
    using a(3) by (simp add: length_segments split: part.splits)
  ultimately show "\<exists>ri. ri < length (regions s) \<and> regions s ! ri = r \<and> pj < length (parts r) \<and>
           (case parts r ! pj of Rect x y w h \<Rightarrow> i < 4 | Poly ps \<Rightarrow> i < length ps) \<and>
           addPointToPolygon pos s =
             Inr (s\<lparr>regions := (regions s)[ri := Region (region_id r)
                    ((parts r)[pj := insertVertex (parts r ! pj) i pt])]\<rparr>)"
    using ri a(2) by blast
qed

lemma adding_points_simps:
  "regions adding_points = [Region 1 [Rect 325 225 150 150]]"
  "isWaitingForPointClick adding_points"
  "viewTransform adding_points = \<lparr>zoom = 1, offset = Point 0 0\<rparr>"
  by (simp_all add: adding_points_def startAddPointMode_def addRegion_def imageLoaded_def
      initial_editor_def Let_def)

lemma adding_points_distances:
  "distToSegment (Point 400 226) (Point 325 225) (Point 475 225) = (1, Point 400 225)"
  "distToSegment (Point 400 226) (Point 475 225) (Point 475 375) = (75, Point 475 226)"
  "distToSegment (Point 400 226) (Point 475 375) (Point 325 375) = (149, Point 400 375)"
  "distToSegment (Point 400 226) (Point 325 375) (Point 325 225) = (75, Point 325 226)"
  by (simp_all add: distToSegment_def Let_def hypot_def)

lemma adding_points_closest:
  "findClosestEdgePoint adding_points (Point 400 226) (regions adding_points) =
     Some (Region 1 [Rect 325 225 150 150], 0, 0, Point 400 225)"
  by (simp add: findClosestEdgePoint_def closest_region_def closest_step_def
      adding_points_distances adding_points_simps enumerate_eq_zip upt_rec Let_def
      threshold_def HANDLE_SIZE_def fl_ops)

theorem addPointToPolygon_click_witness:
  "distinct (map region_id (regions adding_points)) \<and>
   findClosestEdgePoint adding_points (Point 400 226) (regions adding_points) =
     Some (Region 1 [Rect 325 225 150 150], 0, 0, Point 400 225) \<and>
   addPointToPolygon (Point 400 226) adding_points =
     Inr (adding_points
           \<lparr>regions := [Region 1 [Poly [Point 325 225, Point 400 225, Point 475 225,
                                        Point 475 375, Point 325 375]]]\<rparr>)"
proof -
  have h: "distinct (map region_id (regions adding_points))"
    by (simp add: adding_points_simps)
  from addPointToPolygon_click[OF h, of "Point 400 226"] adding_points_closest
  obtain ri where ri: "ri < length (regions adding_points)"
    "regions adding_points ! ri = Region 1 [Rect 325 225 150 150]"
    "addPointToPolygon (Point 400 226) adding_points =
       Inr (adding_points\<lparr>regions := (regions adding_points)[ri := Region (region_id (Region 1 [Rect 325 225 150 150]))
              ((parts (Region 1 [Rect 325 225 150 150]))[0 := insertVertex (parts (Region 1 [Rect 325 225 150 150]) ! 0) 0 (Point 400 225)])]\<rparr>)"
    by blast
  from ri(1) have "ri = 0" by (simp add: adding_points_simps)
  with ri(3) have "addPointToPolygon (Point 400 226) adding_points =
     Inr (adding_points
           \<lparr>regions := [Region 1 [Poly [Point 325 225, Point 400 225, Point 475 225,
                                        Point 475 375, Point 325 375]]]\<rparr>)"
    by (simp add: adding_points_simps splice_insert_def)
  with h adding_points_closest show ?thesis by simp
qed

lemma hit_region_in_regions:
  assumes "hit_region (getHitRegion s pos) = Some r"
  shows "r \<in> set (regions s)"
proof -
  from assms have "getHitRegion s pos \<noteq> no_hit" by (auto simp: no_hit_def)
  then obtain h where h: "hit_regions s pos (rev (regions s)) = Some h"
    by (auto simp: getHitRegion_def split: option.splits)
  then have g: "getHitRegion s pos = h" by (simp add: getHitRegion_def)
  from hit_regions_rev_topmost[OF h] obtain k where k: "k < length (regions s)"
    "hit_in_region s pos (regions s ! k) = Some h" by blast
  from hit_in_region_region[OF k(2)] assms g have "r = regions s ! k" by simp
  with k(1) show ?thesis by simp
qed

lemma regions_min3_Nil: "regions_min3 []"
  by (simp add: regions_min3_def)

lemma regions_min3_filter: "regions_min3 rs \<Longrightarrow> regions_min3 (filter P rs)"
  by (auto simp: regions_min3_def list_all_iff)

lemma regions_min3_snoc:
  "regions_min3 rs \<Longrightarrow> list_all poly_min3 (parts r) \<Longrightarrow> regions_min3 (rs @ [r])"
  by (simp add: regions_min3_def)

lemma regions_min3_member: "regions_min3 rs \<Longrightarrow> r \<in> set rs \<Longrightarrow> list_all poly_min3 (parts r)"
  by (simp add: regions_min3_def list_all_iff)

lemma regions_min3_replace:
  assumes "regions_min3 rs" and "list_all poly_min3 ps"
  shows "regions_min3 (rs[ri := Region rid ps])"
  using assms
  by (auto simp: regions_min3_def list_all_iff dest!: set_update_subset_insert[THEN subsetD])

lemma poly_min3_insertVertex: "poly_min3 p \<Longrightarrow> poly_min3 (insertVertex p i pt)"
  by (cases p) (simp_all add: splice_insert_def)

lemma length_splice_remove_js: "length xs - 1 \<le> length (splice_remove_js k xs)"
  by (auto simp: splice_remove_js_def splice_remove_def Let_def min_def max_def)

lemma poly_min3_deleteVertex: "poly_min3 p \<Longrightarrow> poly_min3 (deleteVertex p k)"
proof (cases p)
  case (Rect x y w h)
  then show ?thesis by simp
next
  case (Poly ps)
  assume "poly_min3 p"
  with Poly have "3 \<le> length ps" by simp
  with Poly length_splice_remove_js[of ps k] show ?thesis by auto
qed

lemma poly_min3_translate: "poly_min3 p \<Longrightarrow> poly_min3 (translate_part dx dy p)"
  by (cases p) simp_all

lemma poly_min3_resize: "poly_min3 (resize_rect mode img m pos ox oy ow oh)"
  using resize_rect_is_Rect[of mode img m pos ox oy ow oh] by auto

lemma list_all_update: "list_all P xs \<Longrightarrow> P v \<Longrightarrow> list_all P (xs[i := v])"
  by (auto simp: list_all_iff dest!: set_update_subset_insert[THEN subsetD])

lemma addPoint_updater_min3:
  assumes "regions_min3 rs" and "addPoint_updater rid pj i pt rs = Inr rs'"
  shows "regions_min3 rs'"
proof (cases "findIndex (\<lambda>r. region_id r = rid) rs")
  case None
  with assms show ?thesis by (simp add: addPoint_updater_def)
next
  case (Some ri)
  from findIndex_Some[OF Some] have ri: "ri < length rs" by simp
  then have all: "list_all poly_min3 (parts (rs ! ri))"
    using assms(1) by (simp add: regions_min3_def list_all_length)
  from assms(2) Some obtain p where
    p: "nth_js (parts (rs ! ri)) (int pj) = Some p"
    "rs' = rs[ri := Region (region_id (rs ! ri)) ((parts (rs ! ri))[pj := insertVertex p i pt])]"
    by (auto simp: addPoint_updater_def Let_def split: option.splits)
  from nth_js_Some[OF p(1)] all have "poly_min3 p" by (auto simp: list_all_length)
  then have "list_all poly_min3 ((parts (rs ! ri))[pj := insertVertex p i pt])"
    using all by (intro list_all_update poly_min3_insertVertex)
  with assms(1) p(2) show ?thesis by (simp add: regions_min3_replace)
qed

lemma deletePoint_updater_min3:
  assumes "regions_min3 rs" and "deletePoint_updater rid pj k rs = Inr rs'"
  shows "regions_min3 rs'"
proof (cases "findIndex (\<lambda>r. region_id r = rid) rs")
  case None
  with assms show ?thesis by (simp add: deletePoint_updater_def)
next
  case (Some ri)
  from findIndex_Some[OF Some] have ri: "ri < length rs" by simp
  then have all: "list_all poly_min3 (parts (rs ! ri))"
    using assms(1) by (simp add: regions_min3_def list_all_length)
  from assms(2) Some obtain p where
    p: "nth_js (parts (rs ! ri)) pj = Some p"
    "rs' = rs[ri := Region (region_id (rs ! ri)) ((parts (rs ! ri))[nat pj := deleteVertex p k])]"
    by (auto simp: deletePoint_updater_def Let_def split: option.splits)
  from nth_js_Some[OF p(1)] all have "poly_min3 p" by (auto simp: list_all_length)
  then have "list_all poly_min3 ((parts (rs ! ri))[nat pj := deleteVertex p k])"
    using all by (intro list_all_update poly_min3_deleteVertex)
  with assms(1) p(2) show ?thesis by (simp add: regions_min3_replace)
qed

lemma onMouseDown_min3:
  assumes "regions_min3 (regions s)" and "onMouseDown pos s = Inr s'"
  shows "regions_min3 (regions s')"
proof -
  let ?hit = "getHitRegion s pos"
  have top: "\<And>r. hit_region ?hit = Some r \<Longrightarrow> list_all poly_min3 (parts r)"
    using hit_region_in_regions regions_min3_member[OF assms(1)] by blast
  consider (dr) "isDeleteRegionMode s"
    | (wp) "\<not> isDeleteRegionMode s" "isWaitingForPointClick s"
    | (dp) "\<not> isDeleteRegionMode s" "\<not> isWaitingForPointClick s" "isDeletePointMode s"
    | (sm) "\<not> isDeleteRegionMode s" "\<not> isWaitingForPointClick s" "\<not> isDeletePointMode s" "isSelectMode s"
    | (dg) "\<not> isDeleteRegionMode s" "\<not> isWaitingForPointClick s" "\<not> isDeletePointMode s" "\<not> isSelectMode s"
    by blast
  then show ?thesis
  proof cases
    case dr
    with assms show ?thesis
      by (auto simp: onMouseDown_def Let_def regions_min3_filter split: option.splits if_splits)
  next
    case wp
    with assms(2) have a: "addPointToPolygon pos s = Inr s'" by (simp add: onMouseDown_def Let_def)
    show ?thesis
    proof (cases "findClosestEdgePoint s pos (regions s)")
      case None
      with a assms(1) show ?thesis by (simp add: addPointToPolygon_def)
    next
      case (Some f)
      obtain r pj i pt where f: "f = (r, pj, i, pt)" by (cases f) auto
      from a Some f obtain rs' where
        rs': "addPoint_updater (region_id r) pj i pt (regions s) = Inr rs'" "s' = s\<lparr>regions := rs'\<rparr>"
        by (auto simp: addPointToPolygon_def split: sum.splits)
      from addPoint_updater_min3[OF assms(1) rs'(1)] rs'(2) show ?thesis by simp
    qed
  next
    case dp
    show ?thesis
    proof (cases "\<exists>r p. hit_region ?hit = Some r \<and> hit_part ?hit = Some p \<and> is_poly p \<and>
        hit_vertexIndex ?hit \<noteq> - 1")
      case True
      then obtain r p where rp: "hit_region ?hit = Some r" "hit_part ?hit = Some p" "is_poly p"
        "hit_vertexIndex ?hit \<noteq> - 1" by blast
      with dp assms(2) obtain rs' where
        rs': "deletePoint_updater (region_id r) (hit_partIndex ?hit) (hit_vertexIndex ?hit) (regions s) = Inr rs'"
        "s' = s\<lparr>regions := rs'\<rparr>"
        by (auto simp: onMouseDown_def Let_def split: sum.splits)
      from deletePoint_updater_min3[OF assms(1) rs'(1)] rs'(2) show ?thesis by simp
    next
      case False
      with dp assms(2) have "s' = s"
        by (auto simp: onMouseDown_def Let_def split: option.splits if_splits)
      with assms(1) show ?thesis by simp
    qed
  next
    case sm
    with assms show ?thesis
      by (auto simp: onMouseDown_def Let_def split: option.splits if_splits)
  next
    case dg
    show ?thesis
    proof (cases "hit_region ?hit")
      case None
      with dg assms show ?thesis by (simp add: onMouseDown_def Let_def)
    next
      case (Some r)
      with dg assms(2) have "regions s' = filter (\<lambda>q. region_id q \<noteq> region_id r) (regions s) @ [r]"
        by (auto simp: onMouseDown_def Let_def)
      with top[OF Some] assms(1) show ?thesis
        by (simp add: regions_min3_snoc regions_min3_filter)
    qed
  qed
qed

lemma drag_updater_min3:
  assumes "regions_min3 (regions s)" and "drag_updater mode pos s = Inr s'"
  shows "regions_min3 (regions s')"
proof (cases "selectedRegion (draggingState s)")
  case None
  with assms show ?thesis by (simp add: drag_updater_def Let_def)
next
  case (Some sel)
  show ?thesis
  proof (cases "findIndex (\<lambda>r. region_id r = region_id sel) (regions s)")
    case None
    with Some assms show ?thesis by (simp add: drag_updater_def Let_def)
  next
    case fi: (Some ri)
    from findIndex_Some[OF fi] have ri: "ri < length (regions s)" by simp
    let ?r = "regions s ! ri"
    have all: "list_all poly_min3 (parts ?r)"
      using assms(1) ri by (simp add: regions_min3_def list_all_length)
    have "\<exists>ps. list_all poly_min3 ps \<and> regions s' = (regions s)[ri := Region (region_id ?r) ps]"
    proof (cases "mode = Body")
      case True
      have "list_all poly_min3 (map (translate_part dx dy) (parts ?r))" for dx dy
        using all by (auto simp: list_all_iff intro: poly_min3_translate)
      with True Some fi assms(2) all show ?thesis
        by (fastforce simp: drag_updater_def Let_def split: sum.splits if_splits)
    next
      case False
      show ?thesis
      proof (cases "nth_js (parts ?r) (selectedPartIndex (draggingState s))")
        case None
        with False Some fi assms(2) show ?thesis by (simp add: drag_updater_def Let_def)
      next
        case p: (Some p)
        show ?thesis
        proof (cases p)
          case (Rect ox oy ow oh)
          have "list_all poly_min3 ((parts ?r)[nat (selectedPartIndex (draggingState s)) :=
              resize_rect mode (originalImage s) (threshold s) pos ox oy ow oh])"
            using all by (intro list_all_update poly_min3_resize)
          with False Some fi p Rect assms(2) show ?thesis
            by (fastforce simp: drag_updater_def Let_def)
        next
          case (Poly pts)
          from nth_js_Some[OF p] all Poly have "3 \<le> length pts" by (auto simp: list_all_length)
          then have "list_all poly_min3 ((parts ?r)[nat (selectedPartIndex (draggingState s)) :=
              Poly (pts[nat (selectedVertexIndex (draggingState s)) := q])])" for q
            using all by (intro list_all_update) simp_all
          with False Some fi p Poly assms(2) all show ?thesis
            by (fastforce simp: drag_updater_def Let_def split: option.splits if_splits)
        qed
      qed
    qed
    with assms(1) show ?thesis by (auto simp: regions_min3_replace)
  qed
qed

lemma onMouseMove_min3:
  assumes "regions_min3 (regions s)" and "onMouseMove pos s = Inr s'"
  shows "regions_min3 (regions s')"
proof (cases "\<exists>mode. isDragging (draggingState s) \<and> dragMode (draggingState s) = Some mode")
  case True
  then obtain mode where "isDragging (draggingState s)" "dragMode (draggingState s) = Some mode"
    by blast
  with assms(2) have "drag_updater mode pos s = Inr s'" by (simp add: onMouseMove_def)
  with assms(1) show ?thesis by (rule drag_updater_min3)
next
  case False
  with assms show ?thesis
    by (auto simp: onMouseMove_def split: bool.splits option.splits if_splits)
qed

lemma merge_min3:
  assumes "regions_min3 (regions s)"
  shows "regions_min3 (regions (mergeSelectedRegions now s))"
  using assms
  by (auto simp: mergeSelectedRegions_def Let_def regions_min3_def list_all_iff)

lemma processRegions_regions: "processRegions ctx2d clock s = Inr s' \<Longrightarrow> regions s' = regions s"
  by (auto simp: processRegions_def split: if_splits sum.splits)

text \<open>
  \<^bold>\<open>X6.\<close> In every state of a session, every polygon of the collection has at least
  three points: the first render has no region, and no handler (loading an image, adding
  a region, the four mode switches, merging, clearing, pointer down, pointer move,
  pointer up, processing, deleting a processed image, changing the view) produces a
  polygon with fewer.
\<close>

theorem polygons_keep_three_points:
  "reachable s \<Longrightarrow> regions_min3 (regions s)"
proof (induction rule: reachable.induct)
  case first_render
  show ?case by (simp add: initial_editor_def regions_min3_Nil)
next
  case (image_loaded s img name)
  show ?case by (simp add: imageLoaded_def regions_min3_Nil)
next
  case (add_region s now)
  then show ?case
    by (auto simp: addRegion_def Let_def regions_min3_snoc split: option.splits)
next
  case (select_mode s)
  then show ?case by (simp add: toggleSelectMode_def cancelAddPointMode_def Let_def)
next
  case (add_point_mode s)
  then show ?case by (simp add: startAddPointMode_def cancelAddPointMode_def Let_def)
next
  case (delete_point_mode s)
  then show ?case by (simp add: toggleDeletePointMode_def cancelAddPointMode_def Let_def)
next
  case (delete_region_mode s)
  then show ?case by (simp add: toggleDeleteRegionMode_def cancelAddPointMode_def Let_def)
next
  case (merge s now)
  then show ?case by (simp add: merge_min3)
next
  case (clear_all s)
  show ?case by (simp add: clearAllRegions_def cancelAddPointMode_def Let_def regions_min3_Nil)
next
  case (mouse_down s pos s')
  then show ?case using onMouseDown_min3 by blast
next
  case (mouse_move s pos s')
  then show ?case using onMouseMove_min3 by blast
next
  case (mouse_up s)
  then show ?case by (simp add: onMouseUp_def)
next
  case (process s ctx2d clock s')
  then show ?case by (simp add: processRegions_regions)
next
  case (delete_image s idToDelete)
  then show ?case by simp
next
  case (view_change s vt)
  then show ?case by simp
qed

theorem polygons_keep_three_points_witness:
  "reachable (adding_points
       \<lparr>regions := [Region 1 [Poly [Point 325 225, Point 400 225, Point 475 225,
                                    Point 475 375, Point 325 375]]]\<rparr>) \<and>
   regions_min3 [Region 1 [Poly [Point 325 225, Point 400 225, Point 475 225,
                                 Point 475 375, Point 325 375]]]"
proof -
  let ?s1 = "adding_points
       \<lparr>regions := [Region 1 [Poly [Point 325 225, Point 400 225, Point 475 225,
                                    Point 475 375, Point 325 375]]]\<rparr>"
  have a: "reachable adding_points"
    unfolding adding_points_def
    by (intro reachable.add_point_mode reachable.add_region reachable.image_loaded
        reachable.first_render)
  have "addPointToPolygon (Point 400 226) adding_points = Inr ?s1"
    using adding_points_closest
    by (simp add: addPointToPolygon_def addPoint_updater_def adding_points_simps nth_js_def
        splice_insert_def)
  then have "onMouseDown (Point 400 226) adding_points = Inr ?s1"
    by (simp add: onMouseDown_def Let_def adding_points_simps adding_points_def
        startAddPointMode_def addRegion_def imageLoaded_def initial_editor_def)
  with a have r: "reachable ?s1" by (rule reachable.mouse_down)
  from polygons_keep_three_points[OF r] r show ?thesis by simp
qed


end
